theory Spec2Isabelle
  imports Main
begin

section \<open>Dates, errors and numpy helpers\<close>

text \<open>
  A date is a \<^verbatim>\<open>numpy.datetime64[D]\<close>: the number of days since 1970-01-01, an
  integer. \<^verbatim>\<open>_to_internal_date\<close> is the identity on such a value, and
  \<^verbatim>\<open>_from_internal_date\<close> is the identity for \<^verbatim>\<open>date_type="numpy"\<close>, so the
  operations below take and return day numbers. String parsing and the other output
  formats are not part of this development. Day numbers and indices are unbounded
  integers: the fixed-width casts of the source (int64, int32, uint8) are assumed not
  to wrap.

  Every \<^verbatim>\<open>raise ValueError\<close> of the source is one constructor of \<open>error\<close>, named
  after the place that raises it.
\<close>

datatype error =
    OutOfUniverse int
  | EndBeforeStart
  | NoCalendarCode
  | UnknownCalendarCode string
  | UnknownProviderClass string
  | UnknownMode string
  | ProviderFailure string
  | BadWhich
  | BadFrequency
  | BadInclusive
  | BadType
  | DateOutsideCalendar int
  | OffsetBeyondEnd int
  | OffsetBeyondStart int
  | IsoDateError

text \<open>\<^verbatim>\<open>np.flatnonzero(mask)\<close>: the indices of the true entries, ascending.\<close>

definition flatnonzero :: "bool list \<Rightarrow> nat list" where
  "flatnonzero m = filter (\<lambda>i. m ! i) [0..<length m]"

text \<open>\<^verbatim>\<open>a[idx]\<close> with an index array; every use below has its indices in range.\<close>

definition take_idx :: "'a list \<Rightarrow> nat list \<Rightarrow> 'a list" where
  "take_idx xs idx = map (\<lambda>i. xs ! i) idx"

text \<open>
  \<^verbatim>\<open>np.searchsorted(a, v, side)\<close> on an ascending array: the number of entries
  below \<open>v\<close> (side "left") or not above \<open>v\<close> (side "right").
\<close>

datatype side = SideLeft | SideRight

definition searchsorted :: "nat list \<Rightarrow> nat \<Rightarrow> side \<Rightarrow> nat" where
  "searchsorted a v s =
     (case s of
        SideLeft \<Rightarrow> length (takeWhile (\<lambda>x. x < v) a)
      | SideRight \<Rightarrow> length (takeWhile (\<lambda>x. x \<le> v) a))"

text \<open>The slice \<^verbatim>\<open>a[left:right]\<close> for non-negative bounds.\<close>

definition slice :: "'a list \<Rightarrow> nat \<Rightarrow> nat \<Rightarrow> 'a list" where
  "slice a left right = take (right - left) (drop left a)"

text \<open>\<^verbatim>\<open>np.where(cond, True, mask)\<close> on two arrays of the same length.\<close>

definition where_true :: "bool list \<Rightarrow> bool list \<Rightarrow> bool list" where
  "where_true cond bm = map (\<lambda>(c, b). if c then True else b) (zip cond bm)"

section \<open>DateUniverse\<close>

record DateUniverse =
  start64 :: int
  end64 :: int

definition days :: "DateUniverse \<Rightarrow> int list" where
  "days u = map (\<lambda>i. start64 u + int i) [0..<nat (end64 u - start64 u + 1)]"

definition len :: "DateUniverse \<Rightarrow> nat" where
  "len u = length (days u)"

definition locate :: "DateUniverse \<Rightarrow> int \<Rightarrow> error + nat" where
  "locate u d64 =
     (let i = d64 - start64 u in
      if i < 0 \<or> i \<ge> int (len u) then Inl (OutOfUniverse d64) else Inr (nat i))"

definition weekday_of :: "int \<Rightarrow> int" where
  "weekday_of d = (d + 3) mod 7 + 1"

definition weekday :: "DateUniverse \<Rightarrow> int list" where
  "weekday u = map weekday_of (days u)"

text \<open>
  The year and month of a day number, as the casts \<^verbatim>\<open>astype("datetime64[Y]")\<close> and
  \<^verbatim>\<open>astype("datetime64[M]")\<close> give them (proleptic Gregorian calendar, computed by
  the usual era arithmetic with floor division).
\<close>

definition civil_of :: "int \<Rightarrow> int \<times> int" where
  "civil_of d =
     (let z = d + 719468;
          era = z div 146097;
          doe = z - era * 146097;
          yoe = (doe - doe div 1460 + doe div 36524 - doe div 146096) div 365;
          doy = doe - (365 * yoe + yoe div 4 - yoe div 100);
          mp = (5 * doy + 2) div 153;
          m = (if mp < 10 then mp + 3 else mp - 9)
      in (yoe + era * 400 + (if m \<le> 2 then 1 else 0), m))"

definition year_of :: "int \<Rightarrow> int" where
  "year_of d = fst (civil_of d)"

definition month_of :: "int \<Rightarrow> int" where
  "month_of d = snd (civil_of d)"

definition year :: "DateUniverse \<Rightarrow> int list" where
  "year u = map year_of (days u)"

definition month :: "DateUniverse \<Rightarrow> int list" where
  "month u = map month_of (days u)"

definition month_key :: "DateUniverse \<Rightarrow> int list" where
  "month_key u = map (\<lambda>(y, m). y * 12 + (m - 1)) (zip (year u) (month u))"

definition quarter :: "DateUniverse \<Rightarrow> int list" where
  "quarter u = map (\<lambda>m. (m - 1) div 3 + 1) (month u)"

definition semester :: "DateUniverse \<Rightarrow> int list" where
  "semester u = map (\<lambda>m. (m - 1) div 6 + 1) (month u)"

text \<open>
  \<^verbatim>\<open>iso_year\<close> and \<^verbatim>\<open>week\<close> go through \<^verbatim>\<open>datetime.date.fromisoformat\<close> for
  every day of the universe, which raises outside the years 1 to 9999 (day numbers
  -719162 to 2932896). Inside that range \<^verbatim>\<open>isocalendar()\<close> is the year of the
  Thursday of the day's week and the number of that Thursday's week in its year.
\<close>

definition jan1 :: "int \<Rightarrow> int" where
  "jan1 y = 365 * (y - 1970) + ((y - 1) div 4 - (y - 1) div 100 + (y - 1) div 400) - 477"

definition iso_year_of :: "int \<Rightarrow> int" where
  "iso_year_of d = year_of (d + 4 - weekday_of d)"

definition iso_week_of :: "int \<Rightarrow> int" where
  "iso_week_of d = (let th = d + 4 - weekday_of d in (th - jan1 (year_of th)) div 7 + 1)"

definition py_date_ok :: "int \<Rightarrow> bool" where
  "py_date_ok d = (- 719162 \<le> d \<and> d \<le> 2932896)"

definition iso_year :: "DateUniverse \<Rightarrow> error + int list" where
  "iso_year u =
     (if list_all py_date_ok (days u) then Inr (map iso_year_of (days u)) else Inl IsoDateError)"

definition week :: "DateUniverse \<Rightarrow> error + int list" where
  "week u =
     (if list_all py_date_ok (days u) then Inr (map iso_week_of (days u)) else Inl IsoDateError)"

section \<open>The calendar-code registry and the mask builders\<close>

text \<open>
  \<^verbatim>\<open>CALENDAR_CODES\<close> of \<^verbatim>\<open>mapping.py\<close>, entry by entry: identifier, provider
  class and provider code (\<open>None\<close> for the weekend-only calendar). Strings are byte
  strings; the euro sign is its three UTF-8 bytes.
\<close>

definition euro :: string where
  "euro = [CHR 0xE2, CHR 0x82, CHR 0xAC]"

definition CALENDAR_CODES :: "(string \<times> string \<times> string option) list" where
  "CALENDAR_CODES =
    [(''DEFAULT'', ''weekend'', None),
     (''WEEKEND'', ''weekend'', None),
     (''WEEKENDS'', ''weekend'', None),
     (''TRIVIAL'', ''weekend'', None),
     (''NAIVE'', ''weekend'', None),
     (''FR'', ''country'', Some ''FR''),
     (''DE'', ''country'', Some ''DE''),
     (''GB'', ''country'', Some ''GB''),
     (''UK'', ''country'', Some ''GB''),
     (''US'', ''country'', Some ''US''),
     (''CA'', ''country'', Some ''CA''),
     (''CH'', ''country'', Some ''CH''),
     (''IT'', ''country'', Some ''IT''),
     (''ES'', ''country'', Some ''ES''),
     (''NL'', ''country'', Some ''NL''),
     (''BE'', ''country'', Some ''BE''),
     (''JP'', ''country'', Some ''JP''),
     (''FRANCE'', ''country'', Some ''FR''),
     (''GERMANY'', ''country'', Some ''DE''),
     (''UNITED_KINGDOM'', ''country'', Some ''GB''),
     (''UNITED_STATES'', ''country'', Some ''US''),
     (''CANADA'', ''country'', Some ''CA''),
     (''SWITZERLAND'', ''country'', Some ''CH''),
     (''ITALY'', ''country'', Some ''IT''),
     (''SPAIN'', ''country'', Some ''ES''),
     (''NETHERLANDS'', ''country'', Some ''NL''),
     (''BELGIUM'', ''country'', Some ''BE''),
     (''JAPAN'', ''country'', Some ''JP''),
     (''XPAR'', ''exchange'', Some ''XPAR''),
     (''PARIS'', ''exchange'', Some ''XPAR''),
     (''EURONEXT_PARIS'', ''exchange'', Some ''XPAR''),
     (''XNYS'', ''exchange'', Some ''XNYS''),
     (''NYSE'', ''exchange'', Some ''XNYS''),
     (''NASDAQ'', ''exchange'', Some ''XNYS''),
     (''NEW_YORK'', ''exchange'', Some ''XNYS''),
     (''XETR'', ''exchange'', Some ''XETR''),
     (''XETRA'', ''exchange'', Some ''XETR''),
     (''FRANKFURT'', ''exchange'', Some ''XETR''),
     (''XTSE'', ''exchange'', Some ''XTSE''),
     (''TORONTO'', ''exchange'', Some ''XTSE''),
     (''TSE'', ''exchange'', Some ''XTSE''),
     (''XTYO'', ''exchange'', Some ''XTYO''),
     (''TOKYO'', ''exchange'', Some ''XTYO''),
     (''XHKG'', ''exchange'', Some ''XHKG''),
     (''HONG_KONG'', ''exchange'', Some ''XHKG''),
     (''EUR'', ''quantlib'', Some ''TARGET''),
     (''ESTR'', ''quantlib'', Some ''TARGET''),
     (''ESTER'', ''quantlib'', Some ''TARGET''),
     (euro @ ''STR'', ''quantlib'', Some ''TARGET''),
     (euro @ ''STER'', ''quantlib'', Some ''TARGET''),
     (''ESTRON INDEX'', ''quantlib'', Some ''TARGET''),
     (''ESTR INDEX'', ''quantlib'', Some ''TARGET''),
     (euro @ ''STRON INDEX'', ''quantlib'', Some ''TARGET''),
     (''ESTRON'', ''quantlib'', Some ''TARGET''),
     (''SOFR'', ''quantlib'', Some ''US_GOVIES''),
     (''SOFRRATE INDEX'', ''quantlib'', Some ''US_GOVIES''),
     (''SOFR INDEX'', ''quantlib'', Some ''US_GOVIES''),
     (''SOFRRATE'', ''quantlib'', Some ''US_GOVIES''),
     (''SONIA INDEX'', ''quantlib'', Some ''SONIA''),
     (''SONIO/N INDEX'', ''quantlib'', Some ''SONIA''),
     (''SONIA'', ''quantlib'', Some ''SONIA'')]"

text \<open>\<^verbatim>\<open>DefaultMaskBuilder.build_mask\<close>: every day but Saturday and Sunday.\<close>

definition default_build_mask :: "DateUniverse \<Rightarrow> bool list" where
  "default_build_mask u = map (\<lambda>wd. wd \<noteq> 6 \<and> wd \<noteq> 7) (weekday u)"

text \<open>
  The exchange, country and QuantLib builders read holiday data of external packages.
  They are a parameter \<open>ext\<close> of the construction: provider class, provider code and
  universe to a mask, or an error.
\<close>

type_synonym ext_builder = "string \<Rightarrow> string option \<Rightarrow> DateUniverse \<Rightarrow> error + bool list"

text \<open>The loop of \<^verbatim>\<open>Calendar._create_mask\<close> over the codes.\<close>

fun build_masks :: "ext_builder \<Rightarrow> DateUniverse \<Rightarrow> string list \<Rightarrow> error + bool list list" where
  "build_masks ext u [] = Inr []"
| "build_masks ext u (code # codes) =
     (case map_of CALENDAR_CODES code of
        None \<Rightarrow> Inl (UnknownCalendarCode code)
      | Some (provider_class, provider_code) \<Rightarrow>
          (case (if provider_class = ''exchange'' then ext provider_class provider_code u
                 else if provider_class = ''quantlib'' then ext provider_class provider_code u
                 else if provider_class = ''country'' then ext provider_class provider_code u
                 else if provider_class = ''weekend'' then Inr (default_build_mask u)
                 else Inl (UnknownProviderClass provider_class)) of
             Inl e \<Rightarrow> Inl e
           | Inr m \<Rightarrow>
               (case build_masks ext u codes of
                  Inl e \<Rightarrow> Inl e
                | Inr ms \<Rightarrow> Inr (m # ms))))"

text \<open>\<^verbatim>\<open>np.logical_or.reduce\<close> and \<^verbatim>\<open>np.logical_and.reduce\<close> over a non-empty list of masks.\<close>

definition logical_or_reduce :: "bool list list \<Rightarrow> bool list" where
  "logical_or_reduce masks = foldl (\<lambda>a b. map (\<lambda>(x, y). x \<or> y) (zip a b)) (hd masks) (tl masks)"

definition logical_and_reduce :: "bool list list \<Rightarrow> bool list" where
  "logical_and_reduce masks = foldl (\<lambda>a b. map (\<lambda>(x, y). x \<and> y) (zip a b)) (hd masks) (tl masks)"

definition create_mask ::
  "ext_builder \<Rightarrow> DateUniverse \<Rightarrow> string list \<Rightarrow> string \<Rightarrow> error + bool list" where
  "create_mask ext u codes multiple_calendars_mode =
     (if codes = [] then Inl NoCalendarCode
      else case build_masks ext u codes of
        Inl e \<Rightarrow> Inl e
      | Inr masks \<Rightarrow>
          if multiple_calendars_mode = ''union'' then Inr (logical_or_reduce masks)
          else if multiple_calendars_mode = ''intersection'' then Inr (logical_and_reduce masks)
          else Inl (UnknownMode multiple_calendars_mode))"

section \<open>Calendar\<close>

record Calendar =
  start_date :: int
  end_date :: int
  business_mask :: "bool list"
  business_position :: "nat list"

definition universe :: "Calendar \<Rightarrow> DateUniverse" where
  "universe c = \<lparr>start64 = start_date c, end64 = end_date c\<rparr>"

text \<open>
  \<^verbatim>\<open>Calendar.__init__\<close>. A single code is the one-element list, as
  \<^verbatim>\<open>_create_mask\<close> makes it.
\<close>

definition Calendar_init ::
  "ext_builder \<Rightarrow> string list \<Rightarrow> int \<Rightarrow> int \<Rightarrow> string \<Rightarrow> error + Calendar" where
  "Calendar_init ext calendar_code start_d end_d multiple_calendars_mode =
     (case create_mask ext \<lparr>start64 = start_d, end64 = end_d\<rparr> calendar_code
             multiple_calendars_mode of
        Inl e \<Rightarrow> Inl e
      | Inr m \<Rightarrow>
          Inr \<lparr>start_date = start_d, end_date = end_d, business_mask = m,
               business_position = flatnonzero m\<rparr>)"

text \<open>
  The invariant of a calendar: the mask has one entry per day of the universe, and
  \<open>business_position\<close> is \<open>flatnonzero\<close> of the mask. The constructor establishes it
  and \<open>override\<close> keeps it (lemmas \<open>Calendar_init_wf\<close> and \<open>override_wf\<close>).
\<close>

definition wf_calendar :: "Calendar \<Rightarrow> bool" where
  "wf_calendar c = (length (business_mask c) = len (universe c)
           \<and> business_position c = flatnonzero (business_mask c))"

definition range_indices :: "Calendar \<Rightarrow> int option \<Rightarrow> int option \<Rightarrow> error + nat \<times> nat" where
  "range_indices c start_d end_d =
     (let s = (case start_d of None \<Rightarrow> start64 (universe c) | Some d \<Rightarrow> d);
          e = (case end_d of None \<Rightarrow> end64 (universe c) | Some d \<Rightarrow> d)
      in case locate (universe c) s of
           Inl err \<Rightarrow> Inl err
         | Inr i0 \<Rightarrow>
             (case locate (universe c) e of
                Inl err \<Rightarrow> Inl err
              | Inr i1 \<Rightarrow> if i1 < i0 then Inl EndBeforeStart else Inr (i0, i1)))"

subsection \<open>Selection in groups\<close>

text \<open>
  The \<^verbatim>\<open>which\<close> argument is a string or an integer (a Python \<^verbatim>\<open>bool\<close> is an
  integer too); \<open>WhichOther\<close> stands for a value of any other type.
\<close>

datatype which = WhichStr string | WhichInt int | WhichOther

definition select_in_groups :: "nat list \<Rightarrow> int list \<Rightarrow> which \<Rightarrow> error + nat list" where
  "select_in_groups pos key w =
     (if pos = [] then Inr pos
      else if w = WhichStr ''all'' then Inr pos
      else
        let starts = True # map (\<lambda>(a, b). a \<noteq> b) (zip (tl key) (butlast key));
            start_idx = flatnonzero starts
        in if w = WhichStr ''first'' then Inr (take_idx pos start_idx)
           else
             let end_idx = map (\<lambda>s. s - 1) (tl start_idx) @ [length pos - 1]
             in if w = WhichStr ''last'' then Inr (take_idx pos end_idx)
                else (case w of
                        WhichInt n \<Rightarrow>
                          if n \<ge> 1 then
                            let nth_idx = map (\<lambda>s. s + nat (n - 1)) start_idx;
                                valid = map (\<lambda>(a, b). a \<le> b) (zip nth_idx end_idx)
                            in Inr (take_idx pos (map fst (filter snd (zip nth_idx valid))))
                          else Inl BadWhich
                      | _ \<Rightarrow> Inl BadWhich))"

text \<open>
  \<^verbatim>\<open>str.lower\<close> on the ASCII letters; the four tokens compared with its result are
  ASCII, and no other character lower-cases to one of their letters.
\<close>

definition lower_char :: "char \<Rightarrow> char" where
  "lower_char ch =
     (let n = (of_char ch :: nat) in if 65 \<le> n \<and> n \<le> 90 then char_of (n + 32) else ch)"

definition lower :: "string \<Rightarrow> string" where
  "lower s = map lower_char s"

definition inclusive_flags :: "string \<Rightarrow> error + bool \<times> bool" where
  "inclusive_flags inclusive =
     (let inc = lower inclusive in
      if inc = ''both'' then Inr (True, True)
      else if inc = ''left'' then Inr (True, False)
      else if inc = ''right'' then Inr (False, True)
      else if inc = ''none'' then Inr (False, False)
      else Inl BadInclusive)"

subsection \<open>Override\<close>

text \<open>
  The loops \<^verbatim>\<open>for d in ...: i = self.universe.locate(d); override_mask[i] = v\<close>.
  A date outside the universe raises before the calendar is changed.
\<close>

fun mark :: "DateUniverse \<Rightarrow> bool list \<Rightarrow> int list \<Rightarrow> bool \<Rightarrow> error + bool list" where
  "mark u m [] v = Inr m"
| "mark u m (d # ds) v =
     (case locate u d of
        Inl e \<Rightarrow> Inl e
      | Inr i \<Rightarrow> mark u (m[i := v]) ds v)"

text \<open>The two passes of \<^verbatim>\<open>override\<close> that fill \<^verbatim>\<open>override_mask\<close>.\<close>

definition build_override_mask ::
  "DateUniverse \<Rightarrow> int list option \<Rightarrow> int list option \<Rightarrow> error + bool list" where
  "build_override_mask u new_business_days new_non_business_days =
     (let override_mask = replicate (len u) False
      in case (case new_business_days of
                 None \<Rightarrow> Inr override_mask
               | Some ds \<Rightarrow> mark u override_mask ds True) of
           Inl e \<Rightarrow> Inl e
         | Inr om1 \<Rightarrow>
             (case new_non_business_days of
                None \<Rightarrow> Inr om1
              | Some ds \<Rightarrow> mark u om1 ds False))"

definition override :: "Calendar \<Rightarrow> int list option \<Rightarrow> int list option \<Rightarrow> error + Calendar" where
  "override c new_business_days new_non_business_days =
     (case build_override_mask (universe c) new_business_days new_non_business_days of
        Inl e \<Rightarrow> Inl e
      | Inr override_mask \<Rightarrow>
          let bm = where_true override_mask (business_mask c)
          in Inr (c\<lparr>business_mask := bm, business_position := flatnonzero bm\<rparr>))"

subsection \<open>Point and range queries\<close>

definition is_business :: "Calendar \<Rightarrow> int \<Rightarrow> error + bool" where
  "is_business c day =
     (case locate (universe c) day of
        Inl e \<Rightarrow> Inl e
      | Inr i \<Rightarrow> Inr (business_mask c ! i))"

definition business_days :: "Calendar \<Rightarrow> int option \<Rightarrow> int option \<Rightarrow> error + int list" where
  "business_days c start_d end_d =
     (let s = (case start_d of None \<Rightarrow> start_date c | Some d \<Rightarrow> d);
          e = (case end_d of None \<Rightarrow> end_date c | Some d \<Rightarrow> d)
      in case range_indices c (Some s) (Some e) of
           Inl err \<Rightarrow> Inl err
         | Inr (i0, i1) \<Rightarrow>
             let pos = business_position c;
                 left = searchsorted pos i0 SideLeft;
                 right = searchsorted pos i1 SideRight
             in Inr (take_idx (days (universe c)) (slice pos left right)))"

definition non_business_days :: "Calendar \<Rightarrow> int option \<Rightarrow> int option \<Rightarrow> error + int list" where
  "non_business_days c start_d end_d =
     (case range_indices c start_d end_d of
        Inl err \<Rightarrow> Inl err
      | Inr (i0, i1) \<Rightarrow>
          let all_pos = [i0..<i1 + 1];
              bus_pos = business_position c
          in Inr (take_idx (days (universe c)) (filter (\<lambda>i. i \<notin> set bus_pos) all_pos)))"

definition days_between ::
  "Calendar \<Rightarrow> int option \<Rightarrow> int option \<Rightarrow> string \<Rightarrow> string \<Rightarrow> error + int" where
  "days_between c start_d end_d type inclusive =
     (let d1 = (case start_d of None \<Rightarrow> start_date c | Some d \<Rightarrow> d);
          d2 = (case end_d of None \<Rightarrow> end_date c | Some d \<Rightarrow> d)
      in case locate (universe c) d1 of
           Inl err \<Rightarrow> Inl err
         | Inr i1 \<Rightarrow>
             (case locate (universe c) d2 of
                Inl err \<Rightarrow> Inl err
              | Inr i2 \<Rightarrow>
                  if i2 < i1 then Inl EndBeforeStart
                  else (case inclusive_flags inclusive of
                          Inl err \<Rightarrow> Inl err
                        | Inr (inc_start, inc_end) \<Rightarrow>
                            if type = ''calendar'' then
                              let cnt = int i2 - int i1 + 1;
                                  cnt = (if \<not> inc_start then cnt - 1 else cnt);
                                  cnt = (if \<not> inc_end then cnt - 1 else cnt)
                              in Inr (max cnt 0)
                            else if type = ''business'' then
                              let bpos = business_position c;
                                  left_side = (if inc_start then SideLeft else SideRight);
                                  right_side = (if inc_end then SideRight else SideLeft);
                                  left = searchsorted bpos i1 left_side;
                                  right = searchsorted bpos i2 right_side
                              in Inr (max (int right - int left) 0)
                            else Inl BadType)))"

subsection \<open>Offsetting\<close>

definition offset_business_days :: "Calendar \<Rightarrow> int \<Rightarrow> int \<Rightarrow> error + int" where
  "offset_business_days c day n =
     (if day < start_date c \<or> day > end_date c then Inl (DateOutsideCalendar day)
      else case locate (universe c) day of
        Inl e \<Rightarrow> Inl e
      | Inr i \<Rightarrow>
          if n = 0 then Inr day
          else if n > 0 then
            let k = int (searchsorted (business_position c) i SideRight) + (n - 1)
            in if k \<ge> int (length (business_position c)) then Inl (OffsetBeyondEnd n)
               else Inr (days (universe c) ! (business_position c ! nat k))
          else
            let k = int (searchsorted (business_position c) i SideLeft) + n
            in if k < 0 then Inl (OffsetBeyondStart n)
               else Inr (days (universe c) ! (business_position c ! nat k)))"

subsection \<open>Schedules\<close>

text \<open>
  The chain of frequency tests, which \<^verbatim>\<open>schedule_business\<close> and
  \<^verbatim>\<open>schedule_calendar\<close> both spell out, and the key of each position.
\<close>

definition frequency_key :: "DateUniverse \<Rightarrow> string \<Rightarrow> nat list \<Rightarrow> error + int list" where
  "frequency_key u frequency pos =
     (if frequency = ''M'' \<or> frequency = ''month'' \<or> frequency = ''Month''
         \<or> frequency = ''MONTH'' then
        Inr (take_idx (month_key u) pos)
      else if frequency = ''Q'' \<or> frequency = ''quarter'' \<or> frequency = ''Quarter''
         \<or> frequency = ''QUARTER'' then
        Inr (map (\<lambda>(y, q). y * 10 + q) (zip (take_idx (year u) pos) (take_idx (quarter u) pos)))
      else if frequency = ''S'' \<or> frequency = ''semester'' \<or> frequency = ''Semester''
         \<or> frequency = ''SEMESTER'' then
        Inr (map (\<lambda>(y, s). y * 10 + s) (zip (take_idx (year u) pos) (take_idx (semester u) pos)))
      else if frequency = ''W'' \<or> frequency = ''week'' \<or> frequency = ''Week''
         \<or> frequency = ''WEEK'' then
        (case iso_year u of
           Inl e \<Rightarrow> Inl e
         | Inr iy \<Rightarrow>
             (case week u of
                Inl e \<Rightarrow> Inl e
              | Inr wk \<Rightarrow>
                  Inr (map (\<lambda>(y, w). y * 100 + w) (zip (take_idx iy pos) (take_idx wk pos)))))
      else if frequency = ''Y'' \<or> frequency = ''year'' \<or> frequency = ''Year''
         \<or> frequency = ''YEAR'' then
        Inr (take_idx (year u) pos)
      else Inl BadFrequency)"

definition schedule_business ::
  "Calendar \<Rightarrow> string \<Rightarrow> which \<Rightarrow> int option \<Rightarrow> int option \<Rightarrow> error + int list" where
  "schedule_business c frequency w start_d end_d =
     (case range_indices c start_d end_d of
        Inl err \<Rightarrow> Inl err
      | Inr (i0, i1) \<Rightarrow>
          let bpos = business_position c;
              left = searchsorted bpos i0 SideLeft;
              right = searchsorted bpos i1 SideRight;
              pos = slice bpos left right
          in if pos = [] then Inr []
             else (case frequency_key (universe c) frequency pos of
                     Inl err \<Rightarrow> Inl err
                   | Inr key \<Rightarrow>
                       (case select_in_groups pos key w of
                          Inl err \<Rightarrow> Inl err
                        | Inr sel \<Rightarrow> Inr (take_idx (days (universe c)) sel))))"

text \<open>
  \<^verbatim>\<open>week_day: Optional[int] = 1\<close>: the value the parameter takes when the caller
  leaves it out.
\<close>

definition week_day_default :: "int option" where
  "week_day_default = Some 1"

definition schedule_calendar ::
  "Calendar \<Rightarrow> string \<Rightarrow> int option \<Rightarrow> which \<Rightarrow> int option \<Rightarrow> int option \<Rightarrow> error + int list" where
  "schedule_calendar c frequency week_day w start_d end_d =
     (case range_indices c start_d end_d of
        Inl err \<Rightarrow> Inl err
      | Inr (i0, i1) \<Rightarrow>
          let all_pos = [i0..<i1 + 1];
              pos = (case week_day of
                       None \<Rightarrow> all_pos
                     | Some wd \<Rightarrow> filter (\<lambda>i. weekday (universe c) ! i = wd) all_pos)
          in if pos = [] then Inr []
             else if w \<noteq> WhichStr ''all'' then
               (case frequency_key (universe c) frequency pos of
                  Inl err \<Rightarrow> Inl err
                | Inr key \<Rightarrow>
                    (case select_in_groups pos key w of
                       Inl err \<Rightarrow> Inl err
                     | Inr sel \<Rightarrow> Inr (take_idx (days (universe c)) sel)))
             else Inr (take_idx (days (universe c)) pos))"

subsection \<open>A concrete calendar\<close>

text \<open>
  The external packages absent: each of their builders raises. The weekend-only
  calendar of 2026-01-01 (a Thursday, day 20454) to 2026-01-14 (day 20467) is the
  running example of the closed theorems.
\<close>

definition no_ext :: ext_builder where
  "no_ext provider_class provider_code u = Inl (ProviderFailure provider_class)"

definition jan2026 :: Calendar where
  "jan2026 =
     \<lparr>start_date = 20454, end_date = 20467,
      business_mask = [True, True, False, False, True, True, True, True, True, False, False,
                       True, True, True],
      business_position = [0, 1, 4, 5, 6, 7, 8, 11, 12, 13]\<rparr>"

subsection \<open>Vocabulary of the properties\<close>

text \<open>A date inside the universe of the calendar.\<close>

definition in_universe :: "Calendar \<Rightarrow> int \<Rightarrow> bool" where
  "in_universe c d = (start_date c \<le> d \<and> d \<le> end_date c)"

text \<open>The example calendar after \<open>override\<close> has opened Saturday 2026-01-03 (day 20456).\<close>

definition jan2026_sat :: Calendar where
  "jan2026_sat =
     \<lparr>start_date = 20454, end_date = 20467,
      business_mask = [True, True, True, False, True, True, True, True, True, False, False,
                       True, True, True],
      business_position = [0, 1, 2, 4, 5, 6, 7, 8, 11, 12, 13]\<rparr>"

text \<open>
  What the construction expects of an external builder: a mask with one entry per day
  of the universe.
\<close>

definition ext_ok :: "ext_builder \<Rightarrow> DateUniverse \<Rightarrow> bool" where
  "ext_ok ext u = (\<forall>pc code m. ext pc code u = Inr m \<longrightarrow> length m = len u)"

text \<open>
  The normal form of a calendar identifier that the specification's registry contract
  speaks of (case-insensitive, whitespace-normalized): surrounding whitespace removed
  and ASCII letters upper-cased. It is the specification's notion, stated here to
  compare the lookup of \<open>build_masks\<close> with it; the construction itself never
  computes it.
\<close>

definition upper_char :: "char \<Rightarrow> char" where
  "upper_char ch =
     (let n = (of_char ch :: nat) in if 97 \<le> n \<and> n \<le> 122 then char_of (n - 32) else ch)"

definition is_space :: "char \<Rightarrow> bool" where
  "is_space ch = (let n = (of_char ch :: nat) in (9 \<le> n \<and> n \<le> 13) \<or> (28 \<le> n \<and> n \<le> 32))"

definition strip :: "string \<Rightarrow> string" where
  "strip s = rev (dropWhile is_space (rev (dropWhile is_space s)))"

definition spec_normalize :: "string \<Rightarrow> string" where
  "spec_normalize s = map upper_char (strip s)"

text \<open>
  The frequency tokens that the chain of \<open>frequency_key\<close> accepts, and the values of
  \<^verbatim>\<open>which\<close> that \<open>select_in_groups\<close> accepts.
\<close>

definition recognized_frequency :: "string \<Rightarrow> bool" where
  "recognized_frequency f =
     (f \<in> set [''M'', ''month'', ''Month'', ''MONTH'', ''Q'', ''quarter'', ''Quarter'', ''QUARTER'',
               ''S'', ''semester'', ''Semester'', ''SEMESTER'', ''W'', ''week'', ''Week'', ''WEEK'',
               ''Y'', ''year'', ''Year'', ''YEAR''])"

definition valid_which :: "which \<Rightarrow> bool" where
  "valid_which w =
     (case w of
        WhichStr s \<Rightarrow> s = ''first'' \<or> s = ''last'' \<or> s = ''all''
      | WhichInt n \<Rightarrow> n \<ge> 1
      | WhichOther \<Rightarrow> False)"

section \<open>Basic facts\<close>

lemma length_days: "length (days u) = nat (end64 u - start64 u + 1)"
  by (simp add: days_def)

lemma days_nth: "i < len u \<Longrightarrow> days u ! i = start64 u + int i"
  by (simp add: len_def days_def)

lemma locate_Inr_iff:
  "locate u d = Inr i \<longleftrightarrow> start64 u \<le> d \<and> d \<le> end64 u \<and> i = nat (d - start64 u)"
  by (auto simp: locate_def Let_def len_def length_days)

lemma locate_lt_len: "locate u d = Inr i \<Longrightarrow> i < len u"
  by (auto simp: locate_def Let_def split: if_splits)

lemma locate_in_universe:
  "in_universe c d \<Longrightarrow> locate (universe c) d = Inr (nat (d - start_date c))"
  by (simp add: locate_Inr_iff in_universe_def universe_def)

lemma locate_days_nth: "i < len u \<Longrightarrow> locate u (start64 u + int i) = Inr i"
  by (auto simp: locate_Inr_iff len_def length_days)

lemma sorted_flatnonzero: "sorted_wrt (<) (flatnonzero m)"
  by (simp add: flatnonzero_def sorted_wrt_filter)

lemma set_flatnonzero: "set (flatnonzero m) = {i. i < length m \<and> m ! i}"
  by (auto simp: flatnonzero_def)

lemma takeWhile_sorted_less:
  "sorted_wrt (<) (a :: nat list) \<Longrightarrow> takeWhile (\<lambda>x. x < v) a = filter (\<lambda>x. x < v) a"
  by (induction a) (auto simp: empty_filter_conv)

lemma takeWhile_sorted_le:
  "sorted_wrt (<) (a :: nat list) \<Longrightarrow> takeWhile (\<lambda>x. x \<le> v) a = filter (\<lambda>x. x \<le> v) a"
  by (induction a) (auto simp: empty_filter_conv)

lemma slice_searchsorted:
  "sorted_wrt (<) a \<Longrightarrow>
   slice a (searchsorted a i0 SideLeft) (searchsorted a i1 SideRight)
     = filter (\<lambda>x. i0 \<le> x \<and> x \<le> i1) a"
proof (induction a)
  case Nil
  then show ?case by (simp add: slice_def searchsorted_def)
next
  case (Cons x xs)
  show ?case
  proof (cases "x < i0")
    case True
    show ?thesis
    proof (cases "x \<le> i1")
      case True
      with \<open>x < i0\<close> Cons show ?thesis by (simp add: slice_def searchsorted_def)
    next
      case False
      with \<open>x < i0\<close> Cons.prems show ?thesis
        by (auto simp: slice_def searchsorted_def filter_empty_conv)
    qed
  next
    case False
    have "\<forall>y\<in>set (x # xs). i0 \<le> y" using False Cons.prems by auto
    then have "filter (\<lambda>y. i0 \<le> y \<and> y \<le> i1) (x # xs) = filter (\<lambda>y. y \<le> i1) (x # xs)"
      by (intro filter_cong) auto
    moreover have "slice (x # xs) (searchsorted (x # xs) i0 SideLeft)
        (searchsorted (x # xs) i1 SideRight) = takeWhile (\<lambda>y. y \<le> i1) (x # xs)"
      using False by (simp add: slice_def searchsorted_def takeWhile_eq_take[symmetric])
    ultimately show ?thesis using takeWhile_sorted_le[OF Cons.prems] by simp
  qed
qed

lemma searchsorted_left_nth:
  assumes "sorted_wrt (<) a" "j < length a"
  shows "searchsorted a (a ! j) SideLeft = j"
proof -
  have "takeWhile (\<lambda>x. x < a ! j) a = take j a"
    using assms by (intro takeWhile_eq_take_P_nth) (auto simp: sorted_wrt_nth_less)
  then show ?thesis using assms by (simp add: searchsorted_def)
qed

lemma searchsorted_right_nth:
  assumes "sorted_wrt (<) a" "j < length a"
  shows "searchsorted a (a ! j) SideRight = Suc j"
proof -
  have "takeWhile (\<lambda>x. x \<le> a ! j) a = take (Suc j) a"
  proof (rule takeWhile_eq_take_P_nth)
    fix i assume "i < Suc j" "i < length a"
    then show "a ! i \<le> a ! j"
      using assms sorted_wrt_nth_less[of "(<)" a i j] by (cases "i = j") auto
  next
    assume "Suc j < length a"
    then show "\<not> a ! Suc j \<le> a ! j"
      using assms sorted_wrt_nth_less[of "(<)" a j "Suc j"] by auto
  qed
  then show ?thesis using assms by (simp add: searchsorted_def)
qed

lemma searchsorted_le_length: "searchsorted a v s \<le> length a"
  by (cases s) (simp_all add: searchsorted_def length_takeWhile_le)

section \<open>Offsetting by zero\<close>

text \<open>
  C8: for every calendar and every date \<open>D\<close> inside the universe, business day or
  not, \<open>offset_business_days c D 0\<close> returns \<open>D\<close> itself.
\<close>

theorem offset_zero_is_identity:
  "in_universe c D \<Longrightarrow> offset_business_days c D 0 = Inr D"
  by (simp add: offset_business_days_def locate_in_universe) (simp add: in_universe_def)

theorem offset_zero_is_identity_witness:
  "in_universe jan2026 20456 \<and> is_business jan2026 20456 = Inr False
   \<and> offset_business_days jan2026 20456 0 = Inr 20456"
proof -
  have u: "in_universe jan2026 20456" by (simp add: in_universe_def jan2026_def)
  have b: "is_business jan2026 20456 = Inr False" by code_simp
  show ?thesis using u b offset_zero_is_identity[OF u] by simp
qed

section \<open>Counting days\<close>

text \<open>
  C7: for every calendar and every date \<open>D\<close> inside the universe,
  \<open>days_between\<close> from \<open>D\<close> to \<open>D\<close> in calendar mode is 1 with both ends included
  and 0 with none; and whatever the arguments, a count that is returned is never
  negative.
\<close>

theorem days_between_calendar_counts:
  "in_universe c D \<Longrightarrow>
     days_between c (Some D) (Some D) ''calendar'' ''both'' = Inr 1
   \<and> days_between c (Some D) (Some D) ''calendar'' ''none'' = Inr 0
   \<and> (\<forall>s e t inc r. days_between c s e t inc = Inr r \<longrightarrow> 0 \<le> r)"
proof (intro conjI allI impI)
  assume u: "in_universe c D"
  have lb: "inclusive_flags ''both'' = Inr (True, True)" by code_simp
  have ln: "inclusive_flags ''none'' = Inr (False, False)" by code_simp
  show "days_between c (Some D) (Some D) ''calendar'' ''both'' = Inr 1"
    by (simp add: days_between_def locate_in_universe[OF u] lb)
  show "days_between c (Some D) (Some D) ''calendar'' ''none'' = Inr 0"
    by (simp add: days_between_def locate_in_universe[OF u] ln)
next
  fix s e t inc r
  assume "days_between c s e t inc = Inr r"
  then show "0 \<le> r"
    by (auto simp: days_between_def Let_def split: sum.splits if_splits prod.splits)
qed

theorem days_between_calendar_counts_witness:
  "in_universe jan2026 20456
   \<and> days_between jan2026 (Some 20456) (Some 20456) ''calendar'' ''both'' = Inr 1
   \<and> days_between jan2026 (Some 20456) (Some 20456) ''calendar'' ''none'' = Inr 0
   \<and> days_between jan2026 (Some 20454) (Some 20460) ''business'' ''none'' = Inr 3"
proof -
  have u: "in_universe jan2026 20456" by (simp add: in_universe_def jan2026_def)
  have b: "days_between jan2026 (Some 20454) (Some 20460) ''business'' ''none'' = Inr 3"
    by code_simp
  show ?thesis using u b days_between_calendar_counts[OF u] by simp
qed

section \<open>The invariant\<close>

lemma wf_jan2026: "wf_calendar jan2026"
  by code_simp

lemma Calendar_init_jan2026:
  "Calendar_init no_ext [''DEFAULT''] 20454 20467 ''union'' = Inr jan2026"
  by code_simp

lemma length_mark: "mark u m ds v = Inr m' \<Longrightarrow> length m' = length m"
  by (induction ds arbitrary: m) (auto split: sum.splits)

lemma length_where_true: "length (where_true om bm) = min (length om) (length bm)"
  by (simp add: where_true_def)

lemma where_true_nth:
  "i < length om \<Longrightarrow> i < length bm \<Longrightarrow> where_true om bm ! i = (om ! i \<or> bm ! i)"
  by (simp add: where_true_def)

lemma where_true_idem: "where_true om (where_true om bm) = where_true om bm"
  by (rule nth_equalityI) (auto simp: length_where_true where_true_nth)

lemma universe_update [simp]:
  "universe (c\<lparr>business_mask := bm, business_position := bp\<rparr>) = universe c"
  by (simp add: universe_def)

lemma length_build_override_mask:
  assumes "build_override_mask u nb nnb = Inr om"
  shows "length om = len u"
proof -
  from assms obtain om1 where
    om1: "(case nb of None \<Rightarrow> Inr (replicate (len u) False)
           | Some ds \<Rightarrow> mark u (replicate (len u) False) ds True) = Inr om1"
    and om2: "(case nnb of None \<Rightarrow> Inr om1 | Some ds \<Rightarrow> mark u om1 ds False) = Inr om"
    by (auto simp: build_override_mask_def Let_def split: sum.splits)
  have "length om1 = len u"
    using om1 by (auto split: option.splits dest: length_mark)
  then show ?thesis
    using om2 by (auto split: option.splits dest: length_mark)
qed

lemma override_mask:
  assumes "override c nb nnb = Inr c'"
  shows "\<exists>om. build_override_mask (universe c) nb nnb = Inr om
         \<and> c' = c\<lparr>business_mask := where_true om (business_mask c),
                    business_position := flatnonzero (where_true om (business_mask c))\<rparr>"
  using assms by (auto simp: override_def Let_def split: sum.splits)

lemma override_wf:
  assumes "wf_calendar c" "override c nb nnb = Inr c'"
  shows "wf_calendar c'"
proof -
  from override_mask[OF assms(2)] obtain om where
    om: "build_override_mask (universe c) nb nnb = Inr om"
    and c': "c' = c\<lparr>business_mask := where_true om (business_mask c),
                    business_position := flatnonzero (where_true om (business_mask c))\<rparr>"
    by blast
  have "length om = len (universe c)" using om by (rule length_build_override_mask)
  then show ?thesis using assms(1) by (simp add: wf_calendar_def c' length_where_true)
qed

lemma length_default_build_mask: "length (default_build_mask u) = len u"
  by (simp add: default_build_mask_def weekday_def len_def)

lemma build_masks_length:
  "ext_ok ext u \<Longrightarrow> build_masks ext u codes = Inr ms \<Longrightarrow>
     length ms = length codes \<and> (\<forall>m\<in>set ms. length m = len u)"
proof (induction codes arbitrary: ms)
  case Nil
  then show ?case by simp
next
  case (Cons code codes)
  then show ?case
    by (auto simp: ext_ok_def length_default_build_mask
        split: option.splits sum.splits if_splits prod.splits)
qed

lemma foldl_zip_length:
  "\<forall>m\<in>set ms. length m = n \<Longrightarrow> length a = n \<Longrightarrow>
     length (foldl (\<lambda>a b. map f (zip a b)) a ms) = n"
  by (induction ms arbitrary: a) auto

lemma Calendar_init_wf:
  assumes "ext_ok ext \<lparr>start64 = s, end64 = e\<rparr>" "Calendar_init ext codes s e mode = Inr c"
  shows "wf_calendar c"
proof -
  let ?u = "\<lparr>start64 = s, end64 = e\<rparr>"
  from assms(2) obtain m where m: "create_mask ext ?u codes mode = Inr m"
    and c: "c = \<lparr>start_date = s, end_date = e, business_mask = m,
                 business_position = flatnonzero m\<rparr>"
    by (auto simp: Calendar_init_def split: sum.splits)
  from m obtain ms where ne: "codes \<noteq> []" and ms: "build_masks ext ?u codes = Inr ms"
    and m': "m = logical_or_reduce ms \<or> m = logical_and_reduce ms"
    by (auto simp: create_mask_def split: sum.splits if_splits)
  from build_masks_length[OF assms(1) ms] ne
  have len: "\<forall>m\<in>set ms. length m = len ?u" and "ms \<noteq> []" by auto
  then have "length (hd ms) = len ?u" "\<forall>m\<in>set (tl ms). length m = len ?u"
    by (auto dest: list.set_sel(2))
  then have "length m = len ?u"
    using m' by (auto simp: logical_or_reduce_def logical_and_reduce_def foldl_zip_length)
  then show ?thesis by (simp add: wf_calendar_def c universe_def)
qed

section \<open>Override\<close>

text \<open>
  C9: override is idempotent. For every calendar and every pair of argument lists that
  \<open>override\<close> accepts, the same call applied a second time succeeds and leaves the
  calendar, mask and positions, as the first call left it.
\<close>

theorem override_idempotent:
  assumes "wf_calendar c" "override c nb nnb = Inr c'"
  shows "override c' nb nnb = Inr c'"
proof -
  from override_mask[OF assms(2)] obtain om where
    om: "build_override_mask (universe c) nb nnb = Inr om"
    and c': "c' = c\<lparr>business_mask := where_true om (business_mask c),
                 business_position := flatnonzero (where_true om (business_mask c))\<rparr>"
    by blast
  have u: "universe c' = universe c" by (simp add: c')
  have "where_true om (business_mask c') = business_mask c'"
    by (simp add: c' where_true_idem)
  moreover have "business_position c' = flatnonzero (business_mask c')"
    by (simp add: c')
  ultimately show ?thesis by (simp add: override_def u om)
qed

theorem override_idempotent_witness:
  "wf_calendar jan2026 \<and> override jan2026 (Some [20456]) (Some [20458]) = Inr jan2026_sat
   \<and> override jan2026_sat (Some [20456]) (Some [20458]) = Inr jan2026_sat"
proof -
  have w: "wf_calendar jan2026" by code_simp
  have o: "override jan2026 (Some [20456]) (Some [20458]) = Inr jan2026_sat" by code_simp
  show ?thesis using w o override_idempotent[OF w o] by simp
qed

text \<open>
  The mask after \<open>override\<close> is the old mask or-ed with \<open>override_mask\<close>, so a
  business day stays one whatever the two lists hold.
\<close>

lemma override_never_clears:
  assumes "wf_calendar c" "override c nb nnb = Inr c'" "is_business c d = Inr True"
  shows "is_business c' d = Inr True"
proof -
  from override_mask[OF assms(2)] obtain om where
    om: "build_override_mask (universe c) nb nnb = Inr om"
    and c': "c' = c\<lparr>business_mask := where_true om (business_mask c),
                 business_position := flatnonzero (where_true om (business_mask c))\<rparr>"
    by blast
  from assms(3) obtain i where i: "locate (universe c) d = Inr i" "business_mask c ! i"
    by (auto simp: is_business_def split: sum.splits)
  have wf_calendar': "wf_calendar c'" using assms(1,2) by (rule override_wf)
  have "i < len (universe c)" using i(1) by (rule locate_lt_len)
  then have "i < length (business_mask c)" "i < length om"
    using assms(1) wf_calendar' by (auto simp: wf_calendar_def c' length_where_true)
  then have "business_mask c' ! i" using i(2) by (simp add: c' where_true_nth)
  then show ?thesis using i(1) by (simp add: is_business_def c')
qed

text \<open>
  C1: a date listed in \<open>new_non_business_days\<close> is to be a non-business day after
  \<open>override\<close>, and a date listed in \<open>new_business_days\<close> a business day. On the
  example calendar, Monday 2026-01-05 (day 20458) listed as non-business is still a
  business day after the call, which returns the calendar unchanged; and Saturday
  2026-01-03 (day 20456) listed in both arguments is still a non-business day.
\<close>

theorem override_non_business_ignored:
  "override jan2026 None (Some [20458]) = Inr jan2026
   \<and> is_business jan2026 20458 = Inr True
   \<and> override jan2026 (Some [20456]) (Some [20456]) = Inr jan2026
   \<and> is_business jan2026 20456 = Inr False"
  by code_simp

section \<open>Positions and days\<close>

lemma wf_position_lt_len:
  "wf_calendar c \<Longrightarrow> i \<in> set (business_position c) \<Longrightarrow> i < len (universe c)"
  by (auto simp: wf_calendar_def set_flatnonzero)

lemma wf_sorted_position: "wf_calendar c \<Longrightarrow> sorted_wrt (<) (business_position c)"
  by (simp add: wf_calendar_def sorted_flatnonzero)

lemma day_of_index:
  "i < len (universe c) \<Longrightarrow> days (universe c) ! i = start_date c + int i"
  by (simp add: days_nth universe_def)

lemma index_in_universe:
  "i < len (universe c) \<Longrightarrow> in_universe c (start_date c + int i)"
  by (auto simp: in_universe_def len_def length_days universe_def)

lemma locate_day_of_index:
  "i < len (universe c) \<Longrightarrow> locate (universe c) (start_date c + int i) = Inr i"
  using locate_days_nth[of i "universe c"] by (simp add: universe_def)

lemma business_day_position:
  assumes "wf_calendar c" "is_business c d = Inr True"
  shows "\<exists>j < length (business_position c). d = start_date c + int (business_position c ! j)"
proof -
  from assms(2) obtain i where i: "locate (universe c) d = Inr i" "business_mask c ! i"
    by (auto simp: is_business_def split: sum.splits)
  have "i < len (universe c)" using i(1) by (rule locate_lt_len)
  then have "i \<in> set (business_position c)"
    using assms(1) i(2) by (simp add: wf_calendar_def set_flatnonzero)
  then obtain j where "j < length (business_position c)" "business_position c ! j = i"
    by (auto simp: in_set_conv_nth)
  moreover have "d = start_date c + int i"
    using i(1) by (auto simp: locate_Inr_iff universe_def)
  ultimately show ?thesis by auto
qed

lemma offset_from_position:
  assumes "wf_calendar c" "j < length (business_position c)" "n \<noteq> 0"
  shows "offset_business_days c (start_date c + int (business_position c ! j)) n =
     (if n > 0 then
        (if int j + n \<ge> int (length (business_position c)) then Inl (OffsetBeyondEnd n)
         else Inr (start_date c + int (business_position c ! nat (int j + n))))
      else
        (if int j + n < 0 then Inl (OffsetBeyondStart n)
         else Inr (start_date c + int (business_position c ! nat (int j + n)))))"
proof -
  let ?bp = "business_position c"
  let ?i = "?bp ! j"
  have s: "sorted_wrt (<) ?bp" using assms(1) by (rule wf_sorted_position)
  have i: "?i < len (universe c)"
    using assms(1,2) by (intro wf_position_lt_len) auto
  have r: "\<not> (start_date c + int ?i < start_date c \<or> start_date c + int ?i > end_date c)"
    using index_in_universe[OF i] by (auto simp: in_universe_def)
  have l: "locate (universe c) (start_date c + int ?i) = Inr ?i"
    using i by (rule locate_day_of_index)
  have sl: "searchsorted ?bp ?i SideLeft = j" using s assms(2) by (rule searchsorted_left_nth)
  have sr: "searchsorted ?bp ?i SideRight = Suc j" using s assms(2) by (rule searchsorted_right_nth)
  have d: "days (universe c) ! (?bp ! k) = start_date c + int (?bp ! k)" if "k < length ?bp" for k
    using assms(1) that by (intro day_of_index wf_position_lt_len) auto
  show ?thesis
  proof (cases "n > 0")
    case True
    have k: "int (Suc j) + (n - 1) = int j + n" by simp
    show ?thesis
      using True r l d[of "nat (int j + n)"]
      by (simp add: offset_business_days_def sr k del: of_nat_Suc)
  next
    case False
    then have neg: "n < 0" using assms(3) by simp
    have "nat (int j + n) < length ?bp" if "0 \<le> int j + n"
      using that neg assms(2) by linarith
    then show ?thesis
      using neg r l d[of "nat (int j + n)"]
      by (simp add: offset_business_days_def sl)
  qed
qed

section \<open>Offset round trip\<close>

text \<open>
  C6: for every calendar, every business day \<open>d\<close> of it and every integer \<open>n\<close>
  for which \<open>offset_business_days c d n\<close> succeeds with a date \<open>d'\<close>, offsetting
  \<open>d'\<close> by \<open>- n\<close> succeeds and returns \<open>d\<close>.
\<close>

theorem offset_round_trip:
  assumes "wf_calendar c" "is_business c d = Inr True" "offset_business_days c d n = Inr d'"
  shows "offset_business_days c d' (- n) = Inr d"
proof (cases "n = 0")
  case True
  with assms(3) have "d' = d"
    by (auto simp: offset_business_days_def split: if_splits sum.splits)
  with True assms(3) show ?thesis by simp
next
  case False
  let ?bp = "business_position c"
  from business_day_position[OF assms(1,2)] obtain j where
    j: "j < length ?bp" and d: "d = start_date c + int (?bp ! j)" by blast
  let ?k = "nat (int j + n)"
  from assms(3) have k: "0 \<le> int j + n" "int j + n < int (length ?bp)"
    and d': "d' = start_date c + int (?bp ! ?k)"
    using j by (auto simp: d offset_from_position[OF assms(1) j False] split: if_splits)
  have kl: "?k < length ?bp" using k by linarith
  have bk: "int ?k + (- n) = int j" using k by simp
  have nz: "- n \<noteq> 0" using False by simp
  have e: "offset_business_days c d' (- n) =
     (if - n > 0 then
        (if int ?k + (- n) \<ge> int (length ?bp) then Inl (OffsetBeyondEnd (- n))
         else Inr (start_date c + int (?bp ! nat (int ?k + (- n)))))
      else
        (if int ?k + (- n) < 0 then Inl (OffsetBeyondStart (- n))
         else Inr (start_date c + int (?bp ! nat (int ?k + (- n))))))"
    unfolding d' by (rule offset_from_position[OF assms(1) kl nz])
  show ?thesis unfolding e bk using j by (simp add: d)
qed

theorem offset_round_trip_witness:
  "wf_calendar jan2026 \<and> is_business jan2026 20455 = Inr True
   \<and> offset_business_days jan2026 20455 3 = Inr 20460
   \<and> offset_business_days jan2026 20460 (- 3) = Inr 20455"
proof -
  have w: "wf_calendar jan2026" by code_simp
  have b: "is_business jan2026 20455 = Inr True" by code_simp
  have o: "offset_business_days jan2026 20455 3 = Inr 20460" by code_simp
  show ?thesis using w b o offset_round_trip[OF w b o] by simp
qed

section \<open>Range queries\<close>

lemma take_idx_sorted:
  assumes "sorted_wrt (<) idx" "\<forall>i\<in>set idx. i < length xs" "sorted_wrt (<) xs"
  shows "sorted_wrt (<) (take_idx xs idx)"
proof -
  have "sorted_wrt (\<lambda>i j. xs ! i < xs ! j) idx"
    using assms(1)
  proof (rule sorted_wrt_mono_rel[rotated])
    fix i j assume "i \<in> set idx" "j \<in> set idx" "i < j"
    then show "xs ! i < xs ! j"
      using assms(2,3) by (auto intro: sorted_wrt_nth_less)
  qed
  then show ?thesis by (simp add: take_idx_def sorted_wrt_map)
qed

lemma take_idx_subset: "\<forall>i\<in>set idx. i < length xs \<Longrightarrow> set (take_idx xs idx) \<subseteq> set xs"
  by (auto simp: take_idx_def)

lemma sorted_days: "sorted_wrt (<) (days u)"
  by (simp add: days_def sorted_wrt_map sorted_wrt_mono_rel[OF _ sorted_wrt_upt])

lemma take_idx_days:
  "\<forall>i\<in>set idx. i < len (universe c) \<Longrightarrow>
     take_idx (days (universe c)) idx = map (\<lambda>i. start_date c + int i) idx"
  by (simp add: take_idx_def day_of_index)

lemma take_idx_days_sorted:
  "sorted_wrt (<) idx \<Longrightarrow> \<forall>i\<in>set idx. i < len (universe c) \<Longrightarrow>
     sorted_wrt (<) (take_idx (days (universe c)) idx)"
  by (rule take_idx_sorted) (simp_all add: len_def sorted_days)

lemma business_slice:
  "wf_calendar c \<Longrightarrow>
     slice (business_position c) (searchsorted (business_position c) i0 SideLeft)
       (searchsorted (business_position c) i1 SideRight)
     = filter (\<lambda>x. i0 \<le> x \<and> x \<le> i1) (business_position c)"
  by (rule slice_searchsorted) (rule wf_sorted_position)

lemma range_indices_bounds:
  "range_indices c s e = Inr (i0, i1) \<Longrightarrow> i0 \<le> i1 \<and> i1 < len (universe c)"
  by (auto simp: range_indices_def Let_def split: sum.splits if_splits dest: locate_lt_len)

lemma range_indices_Some:
  "in_universe c s \<Longrightarrow> in_universe c e \<Longrightarrow> s \<le> e \<Longrightarrow>
     range_indices c (Some s) (Some e) = Inr (nat (s - start_date c), nat (e - start_date c))"
  by (auto simp: range_indices_def locate_in_universe in_universe_def)

lemma image_day_range:
  assumes "start \<le> s" "s \<le> e"
  shows "(\<lambda>i. start + int i) ` {i. nat (s - start) \<le> i \<and> i \<le> nat (e - start)} = {s..e}"
proof (intro set_eqI iffI)
  fix d assume "d \<in> (\<lambda>i. start + int i) ` {i. nat (s - start) \<le> i \<and> i \<le> nat (e - start)}"
  then show "d \<in> {s..e}" using assms by auto
next
  fix d assume d: "d \<in> {s..e}"
  then have "d = start + int (nat (d - start))" using assms by auto
  moreover have "nat (s - start) \<le> nat (d - start) \<and> nat (d - start) \<le> nat (e - start)"
    using d assms by auto
  ultimately show "d \<in> (\<lambda>i. start + int i) ` {i. nat (s - start) \<le> i \<and> i \<le> nat (e - start)}"
    by blast
qed

text \<open>
  C5: for every calendar and every range \<open>s \<le> e\<close> inside its universe,
  \<open>business_days\<close> and \<open>non_business_days\<close> both return, the two lists have no
  date in common, and together they hold exactly the calendar days from \<open>s\<close> to
  \<open>e\<close> inclusive.
\<close>

theorem business_days_partition:
  assumes "wf_calendar c" "in_universe c s" "in_universe c e" "s \<le> e"
  shows "\<exists>b nb. business_days c (Some s) (Some e) = Inr b
           \<and> non_business_days c (Some s) (Some e) = Inr nb
           \<and> set b \<inter> set nb = {} \<and> set b \<union> set nb = {s..e}"
proof -
  let ?bp = "business_position c"
  let ?i0 = "nat (s - start_date c)"
  let ?i1 = "nat (e - start_date c)"
  let ?f = "\<lambda>i. start_date c + int i"
  let ?bs = "filter (\<lambda>x. ?i0 \<le> x \<and> x \<le> ?i1) ?bp"
  let ?ns = "filter (\<lambda>i. i \<notin> set ?bp) [?i0..<?i1 + 1]"
  have r: "range_indices c (Some s) (Some e) = Inr (?i0, ?i1)"
    using assms(2-4) by (rule range_indices_Some)
  have i1: "?i1 < len (universe c)" using range_indices_bounds[OF r] by simp
  have b: "business_days c (Some s) (Some e) = Inr (map ?f ?bs)"
    using i1 by (simp add: business_days_def r business_slice[OF assms(1)] take_idx_days)
  have n: "non_business_days c (Some s) (Some e) = Inr (map ?f ?ns)"
    using i1 by (simp add: non_business_days_def r take_idx_days)
  have inj: "inj ?f" by (simp add: inj_on_def)
  have d: "set ?bs \<inter> set ?ns = {}" by auto
  have u: "set ?bs \<union> set ?ns = {i. ?i0 \<le> i \<and> i \<le> ?i1}" by auto
  have "set (map ?f ?bs) \<inter> set (map ?f ?ns) = ?f ` (set ?bs \<inter> set ?ns)"
    unfolding set_map by (rule image_Int[OF inj, symmetric])
  then have "set (map ?f ?bs) \<inter> set (map ?f ?ns) = {}" using d by simp
  moreover have "set (map ?f ?bs) \<union> set (map ?f ?ns) = ?f ` (set ?bs \<union> set ?ns)"
    unfolding set_map by (rule image_Un[symmetric])
  then have "set (map ?f ?bs) \<union> set (map ?f ?ns) = {s..e}"
    unfolding u using image_day_range[of "start_date c" s e] assms(2,4)
    by (simp add: in_universe_def)
  ultimately show ?thesis using b n by blast
qed

theorem business_days_partition_witness:
  "wf_calendar jan2026 \<and> in_universe jan2026 20455 \<and> in_universe jan2026 20460
   \<and> business_days jan2026 (Some 20455) (Some 20460) = Inr [20455, 20458, 20459, 20460]
   \<and> non_business_days jan2026 (Some 20455) (Some 20460) = Inr [20456, 20457]
   \<and> (\<exists>b nb. business_days jan2026 (Some 20455) (Some 20460) = Inr b
           \<and> non_business_days jan2026 (Some 20455) (Some 20460) = Inr nb
           \<and> set b \<inter> set nb = {} \<and> set b \<union> set nb = {20455..20460})"
proof -
  have w: "wf_calendar jan2026" by code_simp
  have s: "in_universe jan2026 20455" by (simp add: in_universe_def jan2026_def)
  have e: "in_universe jan2026 20460" by (simp add: in_universe_def jan2026_def)
  have b: "business_days jan2026 (Some 20455) (Some 20460) = Inr [20455, 20458, 20459, 20460]"
    by code_simp
  have n: "non_business_days jan2026 (Some 20455) (Some 20460) = Inr [20456, 20457]"
    by code_simp
  from business_days_partition[OF w s e] have
    "\<exists>b nb. business_days jan2026 (Some 20455) (Some 20460) = Inr b
           \<and> non_business_days jan2026 (Some 20455) (Some 20460) = Inr nb
           \<and> set b \<inter> set nb = {} \<and> set b \<union> set nb = {20455..20460}" by simp
  then show ?thesis using w s e b n by blast
qed

section \<open>Selection and order of the returned dates\<close>

lemma flatnonzero_lt: "i \<in> set (flatnonzero m) \<Longrightarrow> i < length m"
  by (simp add: set_flatnonzero)

lemma flatnonzero_True_Cons: "\<exists>rest. flatnonzero (True # bs) = 0 # rest"
  by (simp add: flatnonzero_def upt_conv_Cons del: upt_Suc)

lemma sorted_pred_tail:
  assumes "sorted_wrt (<) (x # xs :: nat list)"
  shows "sorted_wrt (<) (map (\<lambda>s. s - 1) xs)"
proof -
  have pos: "\<forall>y\<in>set xs. 0 < y" using assms by auto
  have "sorted_wrt (<) xs" using assms by simp
  then have "sorted_wrt (\<lambda>a b. a - 1 < b - 1) xs"
  proof (rule sorted_wrt_mono_rel[rotated])
    fix a b assume "a \<in> set xs" "b \<in> set xs" "a < b"
    then show "a - 1 < b - 1" using pos by auto
  qed
  then show ?thesis by (simp add: sorted_wrt_map)
qed

lemma sorted_subseq_zip:
  "sorted_wrt R xs \<Longrightarrow> sorted_wrt R (map fst (filter snd (zip xs bs)))"
proof (induction xs arbitrary: bs)
  case Nil
  then show ?case by simp
next
  case (Cons x xs)
  show ?case
  proof (cases bs)
    case Nil
    then show ?thesis by simp
  next
    case (Cons b bs')
    have "\<forall>y\<in>set (map fst (filter snd (zip xs bs'))). R x y"
      using Cons.prems by (auto dest: set_zip_leftD)
    then show ?thesis using Cons Cons.IH[of bs'] Cons.prems by simp
  qed
qed

lemma valid_bound:
  "x \<in> set (map fst (filter snd (zip xs (map (\<lambda>(a, b). a \<le> b) (zip xs ys)))))
     \<Longrightarrow> \<exists>y\<in>set ys. x \<le> (y :: nat)"
proof (induction xs arbitrary: ys)
  case Nil
  then show ?case by simp
next
  case (Cons a xs)
  then show ?case by (cases ys) (auto split: if_splits)
qed

lemma select_in_groups_sorted:
  assumes "select_in_groups pos key w = Inr sel" "length key = length pos"
    "sorted_wrt (<) pos"
  shows "sorted_wrt (<) sel \<and> set sel \<subseteq> set pos"
proof (cases "pos = [] \<or> w = WhichStr ''all''")
  case True
  then have "select_in_groups pos key w = Inr pos"
    unfolding select_in_groups_def by (simp only: if_True if_False split: if_splits) auto
  with assms show ?thesis by simp
next
  case False
  define starts where "starts = True # map (\<lambda>(a, b). a \<noteq> b) (zip (tl key) (butlast key))"
  define start_idx where "start_idx = flatnonzero starts"
  define end_idx where "end_idx = map (\<lambda>s. s - 1) (tl start_idx) @ [length pos - 1]"
  have ne: "pos \<noteq> []" using False by simp
  have ls: "length starts = length pos"
    using ne assms(2) by (cases key) (auto simp: starts_def)
  have ss: "sorted_wrt (<) start_idx" by (simp add: start_idx_def sorted_flatnonzero)
  have sb: "\<forall>i\<in>set start_idx. i < length pos"
    using ls by (auto simp: start_idx_def dest: flatnonzero_lt)
  obtain rest where sc: "start_idx = 0 # rest"
    using flatnonzero_True_Cons by (auto simp: start_idx_def starts_def)
  have rb: "\<forall>i\<in>set rest. 0 < i \<and> i < length pos" using ss sb sc by auto
  have es: "sorted_wrt (<) end_idx"
    using sorted_pred_tail[of 0 rest] ss rb by (auto simp: end_idx_def sc sorted_wrt_append)
  have eb: "\<forall>i\<in>set end_idx. i < length pos"
    using rb ne by (auto simp: end_idx_def sc)
  have first: "sorted_wrt (<) (take_idx pos start_idx) \<and> set (take_idx pos start_idx) \<subseteq> set pos"
    using ss sb assms(3) by (simp add: take_idx_sorted take_idx_subset)
  have last: "sorted_wrt (<) (take_idx pos end_idx) \<and> set (take_idx pos end_idx) \<subseteq> set pos"
    using es eb assms(3) by (simp add: take_idx_sorted take_idx_subset)
  have nth: "sorted_wrt (<) (take_idx pos sel_idx) \<and> set (take_idx pos sel_idx) \<subseteq> set pos"
    if "sel_idx = map fst (filter snd (zip nth_idx (map (\<lambda>(a, b). a \<le> b) (zip nth_idx end_idx))))"
      and "nth_idx = map (\<lambda>s. s + m) start_idx" for sel_idx nth_idx m
  proof -
    have "sorted_wrt (<) nth_idx" using ss by (simp add: that(2) sorted_wrt_map)
    then have s: "sorted_wrt (<) sel_idx" unfolding that(1) by (rule sorted_subseq_zip)
    have b: "\<forall>i\<in>set sel_idx. i < length pos"
      using eb valid_bound[of _ nth_idx end_idx] unfolding that(1) by fastforce
    show ?thesis using s b assms(3) by (simp add: take_idx_sorted take_idx_subset)
  qed
  from assms(1) False show ?thesis
    unfolding select_in_groups_def Let_def starts_def[symmetric] start_idx_def[symmetric]
      end_idx_def[symmetric]
    using first last nth
    by (auto split: if_splits which.splits)
qed

lemma key_chain:
  assumes "(if a then Inr k1 else if b then Inr k2 else if c then Inr k3
            else if d then k4 else if e then Inr k5 else Inl err) = Inr key"
    "length k1 = n" "length k2 = n" "length k3 = n" "\<And>k. k4 = Inr k \<Longrightarrow> length k = n"
    "length k5 = n"
  shows "length (key :: int list) = n"
  using assms by (auto split: if_splits)

lemma length_frequency_key:
  assumes "frequency_key u f pos = Inr key"
  shows "length key = length pos"
proof (rule key_chain[OF assms[unfolded frequency_key_def]])
  fix k
  assume "(case iso_year u of Inl e \<Rightarrow> Inl e
     | Inr iy \<Rightarrow>
         (case week u of Inl e \<Rightarrow> Inl e
          | Inr wk \<Rightarrow> Inr (map (\<lambda>(y, w). y * 100 + w) (zip (take_idx iy pos) (take_idx wk pos))))) = Inr k"
  then show "length k = length pos"
    by (auto simp: take_idx_def split: sum.splits)
qed (simp_all add: take_idx_def)

lemma scheduled_sorted:
  assumes "sorted_wrt (<) pos" "\<forall>i\<in>set pos. i < len (universe c)"
    "frequency_key (universe c) f pos = Inr key" "select_in_groups pos key w = Inr sel"
  shows "sorted_wrt (<) (take_idx (days (universe c)) sel)"
proof -
  have "sorted_wrt (<) sel \<and> set sel \<subseteq> set pos"
    using assms(4) length_frequency_key[OF assms(3)] assms(1) by (rule select_in_groups_sorted)
  then show ?thesis using assms(2) by (intro take_idx_days_sorted) auto
qed

lemma business_days_sorted:
  assumes "wf_calendar c" "business_days c s e = Inr r"
  shows "sorted_wrt (<) r"
proof -
  from assms(2) obtain i0 i1 where
    r: "r = take_idx (days (universe c))
          (filter (\<lambda>x. i0 \<le> x \<and> x \<le> i1) (business_position c))"
    by (auto simp: business_days_def Let_def business_slice[OF assms(1)] split: sum.splits)
  show ?thesis unfolding r
    using wf_sorted_position[OF assms(1)] wf_position_lt_len[OF assms(1)]
    by (intro take_idx_days_sorted sorted_wrt_filter) auto
qed

lemma range_positions:
  assumes "range_indices c s e = Inr (i0, i1)"
  shows "sorted_wrt (<) [i0..<i1 + 1]" "\<forall>i\<in>set [i0..<i1 + 1]. i < len (universe c)"
proof -
  show "sorted_wrt (<) [i0..<i1 + 1]" by (rule sorted_wrt_upt)
  have "set [i0..<i1 + 1] = {i0..<i1 + 1}" by (rule set_upt)
  then show "\<forall>i\<in>set [i0..<i1 + 1]. i < len (universe c)"
    using range_indices_bounds[OF assms] by auto
qed

lemma non_business_days_sorted:
  assumes "non_business_days c s e = Inr r"
  shows "sorted_wrt (<) r"
proof -
  from assms obtain i0 i1 where i: "range_indices c s e = Inr (i0, i1)"
    by (auto simp: non_business_days_def split: sum.splits)
  have r: "r = take_idx (days (universe c))
          (filter (\<lambda>i. i \<notin> set (business_position c)) [i0..<i1 + 1])"
    using assms unfolding non_business_days_def i Let_def by simp
  have "sorted_wrt (<) (filter (\<lambda>i. i \<notin> set (business_position c)) [i0..<i1 + 1])"
    using range_positions(1)[OF i] by (rule sorted_wrt_filter)
  moreover have "\<forall>j\<in>set (filter (\<lambda>i. i \<notin> set (business_position c)) [i0..<i1 + 1]).
      j < len (universe c)"
    using range_positions(2)[OF i] by (simp del: upt_Suc)
  ultimately show ?thesis unfolding r by (rule take_idx_days_sorted)
qed

lemma schedule_business_sorted:
  assumes "wf_calendar c" "schedule_business c f w s e = Inr r"
  shows "sorted_wrt (<) r"
proof -
  from assms(2) obtain i0 i1 where i: "range_indices c s e = Inr (i0, i1)"
    by (auto simp: schedule_business_def split: sum.splits)
  define pos where "pos = filter (\<lambda>x. i0 \<le> x \<and> x \<le> i1) (business_position c)"
  have ps: "sorted_wrt (<) pos"
    unfolding pos_def using wf_sorted_position[OF assms(1)] by (rule sorted_wrt_filter)
  have pb: "\<forall>i\<in>set pos. i < len (universe c)"
    using wf_position_lt_len[OF assms(1)] by (auto simp: pos_def)
  have unf: "schedule_business c f w s e =
     (if pos = [] then Inr []
      else (case frequency_key (universe c) f pos of
              Inl err \<Rightarrow> Inl err
            | Inr key \<Rightarrow>
                (case select_in_groups pos key w of
                   Inl err \<Rightarrow> Inl err
                 | Inr sel \<Rightarrow> Inr (take_idx (days (universe c)) sel))))"
    unfolding schedule_business_def i Let_def pos_def business_slice[OF assms(1)] by simp
  show ?thesis
  proof (cases "pos = []")
    case True
    with assms(2) show ?thesis by (simp add: unf)
  next
    case False
    with assms(2) obtain key sel where "frequency_key (universe c) f pos = Inr key"
      "select_in_groups pos key w = Inr sel" "r = take_idx (days (universe c)) sel"
      by (auto simp: unf split: sum.splits)
    then show ?thesis using scheduled_sorted[OF ps pb] by simp
  qed
qed

lemma schedule_calendar_unfold:
  assumes "range_indices c s e = Inr (i0, i1)"
    "pos = (case wd of None \<Rightarrow> [i0..<i1 + 1]
      | Some d \<Rightarrow> filter (\<lambda>i. weekday (universe c) ! i = d) [i0..<i1 + 1])"
  shows "schedule_calendar c f wd w s e =
     (if pos = [] then Inr []
      else if w \<noteq> WhichStr ''all'' then
        (case frequency_key (universe c) f pos of
           Inl err \<Rightarrow> Inl err
         | Inr key \<Rightarrow>
             (case select_in_groups pos key w of
                Inl err \<Rightarrow> Inl err
              | Inr sel \<Rightarrow> Inr (take_idx (days (universe c)) sel)))
      else Inr (take_idx (days (universe c)) pos))"
  unfolding schedule_calendar_def assms Let_def by simp

lemma schedule_calendar_sorted:
  assumes "schedule_calendar c f wd w s e = Inr r"
  shows "sorted_wrt (<) r"
proof -
  from assms obtain i0 i1 where i: "range_indices c s e = Inr (i0, i1)"
    by (auto simp: schedule_calendar_def split: sum.splits)
  define pos where "pos = (case wd of None \<Rightarrow> [i0..<i1 + 1]
      | Some d \<Rightarrow> filter (\<lambda>i. weekday (universe c) ! i = d) [i0..<i1 + 1])"
  have ps: "sorted_wrt (<) pos"
    unfolding pos_def using range_positions(1)[OF i]
    by (simp del: upt_Suc add: sorted_wrt_filter split: option.splits)
  have pb: "\<forall>i\<in>set pos. i < len (universe c)"
    unfolding pos_def using range_positions(2)[OF i]
    by (simp del: upt_Suc split: option.splits)
  note unf = schedule_calendar_unfold[OF i pos_def]
  show ?thesis
  proof (cases "pos = []")
    case True
    with assms show ?thesis by (simp add: unf)
  next
    case False
    show ?thesis
    proof (cases "w = WhichStr ''all''")
      case True
      with assms False have "r = take_idx (days (universe c)) pos" by (simp add: unf)
      then show ?thesis using ps pb by (simp add: take_idx_days_sorted)
    next
      case all: False
      with assms False obtain key sel where "frequency_key (universe c) f pos = Inr key"
        "select_in_groups pos key w = Inr sel" "r = take_idx (days (universe c)) sel"
        by (auto simp: unf split: sum.splits)
      then show ?thesis using scheduled_sorted[OF ps pb] by simp
    qed
  qed
qed

text \<open>
  C10: every list of dates that \<open>business_days\<close>, \<open>non_business_days\<close>,
  \<open>schedule_business\<close> or \<open>schedule_calendar\<close> returns is strictly increasing
  (ascending, no date twice), for every calendar and all arguments.
\<close>

theorem returned_dates_strictly_increasing:
  assumes "wf_calendar c"
  shows "(\<forall>r. business_days c s e = Inr r \<longrightarrow> sorted_wrt (<) r)
       \<and> (\<forall>r. non_business_days c s e = Inr r \<longrightarrow> sorted_wrt (<) r)
       \<and> (\<forall>r. schedule_business c f w s e = Inr r \<longrightarrow> sorted_wrt (<) r)
       \<and> (\<forall>r. schedule_calendar c f wd w s e = Inr r \<longrightarrow> sorted_wrt (<) r)"
proof (intro conjI allI impI)
  fix r assume "business_days c s e = Inr r"
  with assms show "sorted_wrt (<) r" by (rule business_days_sorted)
next
  fix r assume "non_business_days c s e = Inr r"
  then show "sorted_wrt (<) r" by (rule non_business_days_sorted)
next
  fix r assume "schedule_business c f w s e = Inr r"
  with assms show "sorted_wrt (<) r" by (rule schedule_business_sorted)
next
  fix r assume "schedule_calendar c f wd w s e = Inr r"
  then show "sorted_wrt (<) r" by (rule schedule_calendar_sorted)
qed

theorem returned_dates_strictly_increasing_witness:
  "wf_calendar jan2026
   \<and> business_days jan2026 None None
       = Inr [20454, 20455, 20458, 20459, 20460, 20461, 20462, 20465, 20466, 20467]
   \<and> sorted_wrt (<) [20454, 20455, 20458, 20459, 20460, 20461, 20462, 20465, 20466, 20467 :: int]
   \<and> non_business_days jan2026 None None = Inr [20456, 20457, 20463, 20464]
   \<and> sorted_wrt (<) [20456, 20457, 20463, 20464 :: int]
   \<and> schedule_business jan2026 ''W'' (WhichInt 2) None None = Inr [20455, 20459, 20466]
   \<and> sorted_wrt (<) [20455, 20459, 20466 :: int]
   \<and> schedule_calendar jan2026 ''W'' None (WhichStr ''last'') None None
       = Inr [20457, 20464, 20467]
   \<and> sorted_wrt (<) [20457, 20464, 20467 :: int]"
proof -
  have w: "wf_calendar jan2026" by code_simp
  have b: "business_days jan2026 None None
       = Inr [20454, 20455, 20458, 20459, 20460, 20461, 20462, 20465, 20466, 20467]"
    by code_simp
  have n: "non_business_days jan2026 None None = Inr [20456, 20457, 20463, 20464]"
    by code_simp
  have sb: "schedule_business jan2026 ''W'' (WhichInt 2) None None = Inr [20455, 20459, 20466]"
    by code_simp
  have sc: "schedule_calendar jan2026 ''W'' None (WhichStr ''last'') None None
       = Inr [20457, 20464, 20467]"
    by code_simp
  from returned_dates_strictly_increasing[OF w, of None None "''W''" "WhichInt 2"]
  have 1: "sorted_wrt (<) [20454, 20455, 20458, 20459, 20460, 20461, 20462, 20465, 20466, 20467 :: int]"
    and 2: "sorted_wrt (<) [20456, 20457, 20463, 20464 :: int]"
    and 3: "sorted_wrt (<) [20455, 20459, 20466 :: int]"
    using b n sb by blast+
  from returned_dates_strictly_increasing[OF w, of None None "''W''" "WhichStr ''last''" None]
  have 4: "sorted_wrt (<) [20457, 20464, 20467 :: int]"
    using sc by blast
  show ?thesis by (intro conjI w b n sb sc 1 2 3 4)
qed

section \<open>Calendar-code lookup\<close>

lemma registry_keys_distinct: "distinct (map fst CALENDAR_CODES)"
  by code_simp

lemma registry_keys_normal: "list_all (\<lambda>(k, _). spec_normalize k = k) CALENDAR_CODES"
  by code_simp

lemma unknown_code_fails:
  "map_of CALENDAR_CODES code = None \<Longrightarrow>
     Calendar_init ext (code # codes) s e mode = Inl (UnknownCalendarCode code)"
  by (simp add: Calendar_init_def create_mask_def)

lemma not_normal_not_registered:
  assumes "spec_normalize code \<noteq> code"
  shows "map_of CALENDAR_CODES code = None"
proof (rule ccontr)
  assume "map_of CALENDAR_CODES code \<noteq> None"
  then obtain entry where "map_of CALENDAR_CODES code = Some entry" by auto
  then have "(code, entry) \<in> set CALENDAR_CODES" by (rule map_of_SomeD)
  then have "spec_normalize code = code"
    using registry_keys_normal by (auto simp: list_all_iff)
  with assms show False by simp
qed

text \<open>
  C3, as the specification states it: any casing or surrounding-whitespace variant of
  a registered identifier resolves like the identifier. The lookup is the plain
  dictionary test \<^verbatim>\<open>code in CALENDAR_CODES\<close>: \<open>''default''\<close> and \<open>'' FR ''\<close>
  normalize to registered identifiers and are rejected as unknown codes.
\<close>

theorem lookup_not_normalized_counterexample:
  "spec_normalize ''default'' = ''DEFAULT'' \<and> spec_normalize '' FR '' = ''FR''
   \<and> map_of CALENDAR_CODES ''DEFAULT'' = Some (''weekend'', None)
   \<and> map_of CALENDAR_CODES ''FR'' = Some (''country'', Some ''FR'')
   \<and> Calendar_init no_ext [''DEFAULT''] 20454 20467 ''union'' = Inr jan2026
   \<and> Calendar_init no_ext [''default''] 20454 20467 ''union''
       = Inl (UnknownCalendarCode ''default'')
   \<and> Calendar_init no_ext ['' FR ''] 20454 20467 ''union''
       = Inl (UnknownCalendarCode '' FR '')"
  by code_simp

text \<open>
  C3, amended: the lookup is an exact match on the registry keys. A first code that is
  not literally a key makes the construction fail with the unknown-code error naming
  it; this holds in particular for every string that differs from its own normal form,
  since every key is in normal form. A registered identifier resolves to its
  registered provider class and code.
\<close>

theorem calendar_code_lookup_exact:
  "(map_of CALENDAR_CODES code = None \<longrightarrow>
      Calendar_init ext (code # codes) s e mode = Inl (UnknownCalendarCode code))
   \<and> (spec_normalize code \<noteq> code \<longrightarrow>
      Calendar_init ext (code # codes) s e mode = Inl (UnknownCalendarCode code))
   \<and> ((code, entry) \<in> set CALENDAR_CODES \<longrightarrow> map_of CALENDAR_CODES code = Some entry)"
  using unknown_code_fails not_normal_not_registered
    map_of_is_SomeI[OF registry_keys_distinct] by blast

theorem calendar_code_lookup_exact_witness:
  "map_of CALENDAR_CODES '' FR '' = None
   \<and> Calendar_init no_ext ['' FR ''] 20454 20467 ''union'' = Inl (UnknownCalendarCode '' FR '')
   \<and> spec_normalize ''default'' \<noteq> ''default''
   \<and> Calendar_init no_ext [''default''] 20454 20467 ''union''
       = Inl (UnknownCalendarCode ''default'')
   \<and> (''UK'', ''country'', Some ''GB'') \<in> set CALENDAR_CODES
   \<and> map_of CALENDAR_CODES ''UK'' = Some (''country'', Some ''GB'')"
proof -
  have a: "map_of CALENDAR_CODES '' FR '' = None" by code_simp
  have b: "spec_normalize ''default'' \<noteq> ''default''" by code_simp
  have c: "(''UK'', ''country'', Some ''GB'') \<in> set CALENDAR_CODES"
    by (simp add: CALENDAR_CODES_def)
  from calendar_code_lookup_exact[of "'' FR ''" no_ext "[]" 20454 20467 "''union''"] a
  have 1: "Calendar_init no_ext ['' FR ''] 20454 20467 ''union''
      = Inl (UnknownCalendarCode '' FR '')" by blast
  from calendar_code_lookup_exact[of "''default''" no_ext "[]" 20454 20467 "''union''"] b
  have 2: "Calendar_init no_ext [''default''] 20454 20467 ''union''
      = Inl (UnknownCalendarCode ''default'')" by blast
  from calendar_code_lookup_exact[of "''UK''" _ _ _ _ _ "(''country'', Some ''GB'')"] c
  have 3: "map_of CALENDAR_CODES ''UK'' = Some (''country'', Some ''GB'')" by blast
  show ?thesis by (intro conjI a b c 1 2 3)
qed

section \<open>The weekday filter of \<open>schedule_calendar\<close>\<close>

lemma weekday_nth: "i < len u \<Longrightarrow> weekday u ! i = weekday_of (start64 u + int i)"
  by (simp add: weekday_def len_def days_nth)

lemma schedule_calendar_weekday:
  assumes "schedule_calendar c f (Some wd) w s e = Inr r" "d \<in> set r"
  shows "weekday_of d = wd"
proof -
  from assms(1) obtain i0 i1 where i: "range_indices c s e = Inr (i0, i1)"
    by (auto simp: schedule_calendar_def split: sum.splits)
  define pos where "pos = (case Some wd of None \<Rightarrow> [i0..<i1 + 1]
      | Some d \<Rightarrow> filter (\<lambda>i. weekday (universe c) ! i = d) [i0..<i1 + 1])"
  have pf: "pos = filter (\<lambda>i. weekday (universe c) ! i = wd) [i0..<i1 + 1]"
    by (simp add: pos_def)
  have ps: "sorted_wrt (<) pos"
    unfolding pf using range_positions(1)[OF i] by (rule sorted_wrt_filter)
  have pb: "\<forall>i\<in>set pos. i < len (universe c)"
    unfolding pf using range_positions(2)[OF i] by (simp del: upt_Suc)
  have pw: "\<forall>i\<in>set pos. weekday_of (start_date c + int i) = wd"
  proof
    fix j assume j: "j \<in> set pos"
    then have "weekday (universe c) ! j = wd" unfolding pf by (simp del: upt_Suc)
    moreover have "j < len (universe c)" using pb j by simp
    ultimately show "weekday_of (start_date c + int j) = wd"
      by (simp add: weekday_nth universe_def)
  qed
  note unf = schedule_calendar_unfold[OF i pos_def]
  have "\<exists>sel. set sel \<subseteq> set pos \<and> r = take_idx (days (universe c)) sel"
  proof (cases "pos = []")
    case True
    with assms(1) show ?thesis by (auto simp: unf take_idx_def)
  next
    case False
    show ?thesis
    proof (cases "w = WhichStr ''all''")
      case True
      with assms(1) False show ?thesis by (auto simp: unf)
    next
      case all: False
      with assms(1) False obtain key sel where k: "frequency_key (universe c) f pos = Inr key"
        and sel: "select_in_groups pos key w = Inr sel"
        and r: "r = take_idx (days (universe c)) sel"
        by (auto simp: unf split: sum.splits)
      from select_in_groups_sorted[OF sel length_frequency_key[OF k] ps] r
      show ?thesis by blast
    qed
  qed
  then obtain sel where sel: "set sel \<subseteq> set pos" "r = take_idx (days (universe c)) sel"
    by blast
  have "r = map (\<lambda>i. start_date c + int i) sel"
    unfolding sel(2) using sel(1) pb by (intro take_idx_days) auto
  with assms(2) sel(1) pw show ?thesis by auto
qed

text \<open>
  C4, as the specification states it: with \<open>week_day\<close> left out the weekday filter
  is skipped. The parameter's default is 1, so the call without it schedules Mondays
  only, while an explicit \<open>None\<close> schedules over every day.
\<close>

theorem week_day_omitted_counterexample:
  "week_day_default = Some 1
   \<and> schedule_calendar jan2026 ''M'' week_day_default (WhichStr ''all'') None None
       = Inr [20458, 20465]
   \<and> schedule_calendar jan2026 ''M'' None (WhichStr ''all'') None None
       = Inr [20454, 20455, 20456, 20457, 20458, 20459, 20460, 20461, 20462, 20463, 20464,
              20465, 20466, 20467]"
  by code_simp

text \<open>
  C4, amended: with \<open>week_day\<close> passed as \<open>None\<close> the weekday filter is skipped
  and the grouping and selection run over every calendar day of the requested range
  (with \<open>which = "all"\<close> the result is every day of the range). With \<open>week_day\<close>
  left out it is 1, and every returned date is a Monday.
\<close>

theorem schedule_calendar_week_day:
  assumes "range_indices c s e = Inr (i0, i1)"
  shows "schedule_calendar c f None (WhichStr ''all'') s e
           = Inr (map (\<lambda>i. start_date c + int i) [i0..<i1 + 1])
       \<and> (w \<noteq> WhichStr ''all'' \<longrightarrow>
            schedule_calendar c f None w s e =
              (case frequency_key (universe c) f [i0..<i1 + 1] of
                 Inl err \<Rightarrow> Inl err
               | Inr key \<Rightarrow>
                   (case select_in_groups [i0..<i1 + 1] key w of
                      Inl err \<Rightarrow> Inl err
                    | Inr sel \<Rightarrow> Inr (take_idx (days (universe c)) sel))))
       \<and> (\<forall>r. schedule_calendar c f week_day_default w s e = Inr r \<longrightarrow>
              (\<forall>d\<in>set r. weekday_of d = 1))"
proof (intro conjI allI impI ballI)
  have pos: "[i0..<i1 + 1] = (case None :: int option of None \<Rightarrow> [i0..<i1 + 1]
      | Some d \<Rightarrow> filter (\<lambda>i. weekday (universe c) ! i = d) [i0..<i1 + 1])"
    by simp
  note unf = schedule_calendar_unfold[OF assms pos]
  have ne: "[i0..<i1 + 1] \<noteq> []" using range_indices_bounds[OF assms] by simp
  have "take_idx (days (universe c)) [i0..<i1 + 1] = map (\<lambda>i. start_date c + int i) [i0..<i1 + 1]"
    using range_positions(2)[OF assms] by (rule take_idx_days)
  then show "schedule_calendar c f None (WhichStr ''all'') s e
           = Inr (map (\<lambda>i. start_date c + int i) [i0..<i1 + 1])"
    using ne by (simp only: unf simp_thms if_False if_True)
  assume "w \<noteq> WhichStr ''all''"
  then show "schedule_calendar c f None w s e =
              (case frequency_key (universe c) f [i0..<i1 + 1] of
                 Inl err \<Rightarrow> Inl err
               | Inr key \<Rightarrow>
                   (case select_in_groups [i0..<i1 + 1] key w of
                      Inl err \<Rightarrow> Inl err
                    | Inr sel \<Rightarrow> Inr (take_idx (days (universe c)) sel)))"
    using ne by (simp only: unf simp_thms if_False if_True)
next
  fix r d
  assume "schedule_calendar c f week_day_default w s e = Inr r" "d \<in> set r"
  then show "weekday_of d = 1"
    unfolding week_day_default_def by (rule schedule_calendar_weekday)
qed

theorem schedule_calendar_week_day_witness:
  "range_indices jan2026 (Some 20455) (Some 20460) = Inr (1, 6)
   \<and> schedule_calendar jan2026 ''M'' None (WhichStr ''all'') (Some 20455) (Some 20460)
       = Inr [20455, 20456, 20457, 20458, 20459, 20460]
   \<and> schedule_calendar jan2026 ''W'' None (WhichStr ''last'') (Some 20455) (Some 20460)
       = Inr [20457, 20460]
   \<and> schedule_calendar jan2026 ''W'' week_day_default (WhichStr ''last'') (Some 20455) (Some 20460)
       = Inr [20458]
   \<and> weekday_of 20458 = 1"
proof -
  have i: "range_indices jan2026 (Some 20455) (Some 20460) = Inr (1, 6)" by code_simp
  have d: "schedule_calendar jan2026 ''W'' week_day_default (WhichStr ''last'') (Some 20455)
      (Some 20460) = Inr [20458]" by code_simp
  have l: "schedule_calendar jan2026 ''W'' None (WhichStr ''last'') (Some 20455) (Some 20460)
       = Inr [20457, 20460]" by code_simp
  note t = schedule_calendar_week_day[OF i, of "''M''" "WhichStr ''last''"]
  have a: "schedule_calendar jan2026 ''M'' None (WhichStr ''all'') (Some 20455) (Some 20460)
       = Inr (map (\<lambda>i. start_date jan2026 + int i) [1..<6 + 1])"
    using t by blast
  have m: "map (\<lambda>i. start_date jan2026 + int i) [1..<6 + 1]
      = [20455, 20456, 20457, 20458, 20459, 20460]" by code_simp
  from schedule_calendar_week_day[OF i, of "''W''" "WhichStr ''last''"] d
  have w: "weekday_of 20458 = 1" by auto
  show ?thesis using i a[unfolded m] l d w by (intro conjI)
qed

section \<open>Validation of the schedule arguments\<close>

lemma frequency_key_unrecognized:
  "\<not> recognized_frequency f \<Longrightarrow> frequency_key u f pos = Inl BadFrequency"
  by (simp add: recognized_frequency_def frequency_key_def)

lemma select_in_groups_invalid:
  "pos \<noteq> [] \<Longrightarrow> \<not> valid_which w \<Longrightarrow> select_in_groups pos key w = Inl BadWhich"
  by (cases w) (simp_all add: select_in_groups_def valid_which_def Let_def)

lemma validated_selection_fails:
  assumes "pos \<noteq> []" "\<not> recognized_frequency f \<or> \<not> valid_which w"
  shows "\<exists>err. (case frequency_key u f pos of
                  Inl err \<Rightarrow> Inl err
                | Inr key \<Rightarrow>
                    (case select_in_groups pos key w of
                       Inl err \<Rightarrow> Inl err
                     | Inr sel \<Rightarrow> Inr (take_idx ds sel))) = (Inl err :: error + int list)"
proof (cases "frequency_key u f pos")
  case (Inl e)
  then show ?thesis by simp
next
  case (Inr key)
  then have "recognized_frequency f" using frequency_key_unrecognized[of f u pos] by auto
  with assms have "select_in_groups pos key w = Inl BadWhich"
    by (auto intro: select_in_groups_invalid)
  with Inr show ?thesis by simp
qed

lemma range_indices_defaults:
  "range_indices c (Some (case s of None \<Rightarrow> start_date c | Some d \<Rightarrow> d))
      (Some (case e of None \<Rightarrow> end_date c | Some d \<Rightarrow> d)) = range_indices c s e"
  by (cases s; cases e; simp add: range_indices_def universe_def cong: sum.case_cong)

lemma schedule_business_unfold:
  assumes "range_indices c s e = Inr (i0, i1)"
    "pos = slice (business_position c) (searchsorted (business_position c) i0 SideLeft)
             (searchsorted (business_position c) i1 SideRight)"
  shows "schedule_business c f w s e =
     (if pos = [] then Inr []
      else (case frequency_key (universe c) f pos of
              Inl err \<Rightarrow> Inl err
            | Inr key \<Rightarrow>
                (case select_in_groups pos key w of
                   Inl err \<Rightarrow> Inl err
                 | Inr sel \<Rightarrow> Inr (take_idx (days (universe c)) sel))))"
  unfolding schedule_business_def assms Let_def by simp

lemma business_days_unfold:
  assumes "range_indices c s e = Inr (i0, i1)"
  shows "business_days c s e =
     Inr (take_idx (days (universe c))
       (slice (business_position c) (searchsorted (business_position c) i0 SideLeft)
             (searchsorted (business_position c) i1 SideRight)))"
  unfolding business_days_def Let_def range_indices_defaults assms by simp

lemma business_days_range:
  "business_days c s e = Inr bd \<Longrightarrow> \<exists>i0 i1. range_indices c s e = Inr (i0, i1)"
  unfolding business_days_def Let_def range_indices_defaults
  by (cases "range_indices c s e") auto

text \<open>
  C2, as the specification states it: both schedules fail on an unrecognized frequency
  and on an invalid \<open>which\<close>, whatever the other arguments. On the example calendar
  \<open>schedule_calendar\<close> with \<open>which = "all"\<close> returns dates for the frequency
  \<open>''bogus''\<close>, and both schedules return the empty list for \<open>''bogus''\<close> and
  \<open>which = 0\<close> when the range holds no candidate day (a week-end for
  \<open>schedule_business\<close>, three days without a Monday for \<open>schedule_calendar\<close>).
\<close>

theorem schedule_validation_counterexample:
  "\<not> recognized_frequency ''bogus'' \<and> \<not> valid_which (WhichInt 0)
   \<and> schedule_calendar jan2026 ''bogus'' None (WhichStr ''all'') (Some 20455) (Some 20457)
       = Inr [20455, 20456, 20457]
   \<and> schedule_business jan2026 ''bogus'' (WhichInt 0) (Some 20456) (Some 20457) = Inr []
   \<and> schedule_calendar jan2026 ''bogus'' (Some 1) (WhichInt 0) (Some 20455) (Some 20457)
       = Inr []"
  by code_simp

text \<open>
  C2, amended: when the requested range holds at least one business day,
  \<open>schedule_business\<close> fails on an unrecognized frequency (with the frequency
  error) and on an invalid \<open>which\<close>. When the requested range holds at least one
  day of the requested weekday (the days that \<open>which = "all"\<close> returns),
  \<open>schedule_calendar\<close> fails on an invalid \<open>which\<close>, and on an unrecognized
  frequency if \<open>which\<close> is not \<open>"all"\<close>.
\<close>

theorem schedule_validation:
  "(business_days c s e = Inr bd \<and> bd \<noteq> [] \<and> \<not> recognized_frequency f \<longrightarrow>
      schedule_business c f w s e = Inl BadFrequency)
   \<and> (business_days c s e = Inr bd \<and> bd \<noteq> [] \<and> \<not> valid_which w \<longrightarrow>
      (\<exists>err. schedule_business c f w s e = Inl err))
   \<and> (schedule_calendar c f wd (WhichStr ''all'') s e = Inr ds \<and> ds \<noteq> []
       \<and> \<not> recognized_frequency f \<and> w \<noteq> WhichStr ''all'' \<longrightarrow>
      schedule_calendar c f wd w s e = Inl BadFrequency)
   \<and> (schedule_calendar c f wd (WhichStr ''all'') s e = Inr ds \<and> ds \<noteq> []
       \<and> \<not> valid_which w \<longrightarrow>
      (\<exists>err. schedule_calendar c f wd w s e = Inl err))"
proof (intro conjI impI)
  assume a: "business_days c s e = Inr bd \<and> bd \<noteq> [] \<and> \<not> recognized_frequency f"
  then obtain i0 i1 where i: "range_indices c s e = Inr (i0, i1)"
    using business_days_range by blast
  define pos where "pos = slice (business_position c)
      (searchsorted (business_position c) i0 SideLeft)
      (searchsorted (business_position c) i1 SideRight)"
  have "pos \<noteq> []" using a by (auto simp: business_days_unfold[OF i] pos_def take_idx_def)
  then show "schedule_business c f w s e = Inl BadFrequency"
    using a by (simp add: schedule_business_unfold[OF i pos_def] frequency_key_unrecognized)
next
  assume a: "business_days c s e = Inr bd \<and> bd \<noteq> [] \<and> \<not> valid_which w"
  then obtain i0 i1 where i: "range_indices c s e = Inr (i0, i1)"
    using business_days_range by blast
  define pos where "pos = slice (business_position c)
      (searchsorted (business_position c) i0 SideLeft)
      (searchsorted (business_position c) i1 SideRight)"
  have "pos \<noteq> []" using a by (auto simp: business_days_unfold[OF i] pos_def take_idx_def)
  then show "\<exists>err. schedule_business c f w s e = Inl err"
    using a validated_selection_fails[where pos = pos and f = f and w = w and u = "universe c"
        and ds = "days (universe c)"]
    by (simp add: schedule_business_unfold[OF i pos_def])
next
  assume a: "schedule_calendar c f wd (WhichStr ''all'') s e = Inr ds \<and> ds \<noteq> []
       \<and> \<not> recognized_frequency f \<and> w \<noteq> WhichStr ''all''"
  then obtain i0 i1 where i: "range_indices c s e = Inr (i0, i1)"
    by (cases "range_indices c s e") (auto simp: schedule_calendar_def)
  define pos where "pos = (case wd of None \<Rightarrow> [i0..<i1 + 1]
      | Some d \<Rightarrow> filter (\<lambda>i. weekday (universe c) ! i = d) [i0..<i1 + 1])"
  have "pos \<noteq> []"
    using a by (auto simp: schedule_calendar_unfold[OF i pos_def] split: if_splits)
  then show "schedule_calendar c f wd w s e = Inl BadFrequency"
    using a by (simp add: schedule_calendar_unfold[OF i pos_def] frequency_key_unrecognized)
next
  assume a: "schedule_calendar c f wd (WhichStr ''all'') s e = Inr ds \<and> ds \<noteq> []
       \<and> \<not> valid_which w"
  then obtain i0 i1 where i: "range_indices c s e = Inr (i0, i1)"
    by (cases "range_indices c s e") (auto simp: schedule_calendar_def)
  define pos where "pos = (case wd of None \<Rightarrow> [i0..<i1 + 1]
      | Some d \<Rightarrow> filter (\<lambda>i. weekday (universe c) ! i = d) [i0..<i1 + 1])"
  have ne: "pos \<noteq> []"
    using a by (auto simp: schedule_calendar_unfold[OF i pos_def] split: if_splits)
  have "w \<noteq> WhichStr ''all''" using a by (auto simp: valid_which_def)
  then show "\<exists>err. schedule_calendar c f wd w s e = Inl err"
    using a ne validated_selection_fails[where pos = pos and f = f and w = w and u = "universe c"
        and ds = "days (universe c)"]
    by (simp add: schedule_calendar_unfold[OF i pos_def])
qed

theorem schedule_validation_witness:
  "business_days jan2026 (Some 20455) (Some 20460) = Inr [20455, 20458, 20459, 20460]
   \<and> \<not> recognized_frequency ''bogus'' \<and> \<not> valid_which (WhichInt 0)
   \<and> schedule_business jan2026 ''bogus'' (WhichInt 0) (Some 20455) (Some 20460)
       = Inl BadFrequency
   \<and> schedule_business jan2026 ''M'' (WhichInt 0) (Some 20455) (Some 20460) = Inl BadWhich
   \<and> schedule_calendar jan2026 ''bogus'' (Some 1) (WhichStr ''all'') (Some 20455) (Some 20460)
       = Inr [20458]
   \<and> schedule_calendar jan2026 ''bogus'' (Some 1) (WhichInt 0) (Some 20455) (Some 20460)
       = Inl BadFrequency
   \<and> schedule_calendar jan2026 ''M'' (Some 1) (WhichInt 0) (Some 20455) (Some 20460)
       = Inl BadWhich"
proof -
  have b: "business_days jan2026 (Some 20455) (Some 20460) = Inr [20455, 20458, 20459, 20460]"
    by code_simp
  have f: "\<not> recognized_frequency ''bogus''" by code_simp
  have v: "\<not> valid_which (WhichInt 0)" by code_simp
  have a: "schedule_calendar jan2026 ''bogus'' (Some 1) (WhichStr ''all'') (Some 20455)
      (Some 20460) = Inr [20458]" by code_simp
  have bw: "schedule_business jan2026 ''M'' (WhichInt 0) (Some 20455) (Some 20460) = Inl BadWhich"
    by code_simp
  have cw: "schedule_calendar jan2026 ''M'' (Some 1) (WhichInt 0) (Some 20455) (Some 20460)
       = Inl BadWhich" by code_simp
  note t = schedule_validation[of jan2026 "Some 20455" "Some 20460"
      "[20455, 20458, 20459, 20460]" "''bogus''" "WhichInt 0" "Some 1" "[20458]"]
  have 1: "schedule_business jan2026 ''bogus'' (WhichInt 0) (Some 20455) (Some 20460)
       = Inl BadFrequency" using t b f by simp
  have 2: "schedule_calendar jan2026 ''bogus'' (Some 1) (WhichInt 0) (Some 20455) (Some 20460)
       = Inl BadFrequency" using t a f by simp
  show ?thesis by (intro conjI b f v 1 bw a 2 cw)
qed

end
